theory Spec2Isabelle
  imports Main "HOL-Library.Sublist" "HOL-Library.AList"
begin

section \<open>Python strings\<close>

text \<open>
  A Python \<open>str\<close> is a sequence of Unicode code points, and \<open>len\<close>, indexing and
  slicing count code points. A string is therefore a list of code points (natural
  numbers), not a list of bytes. ASCII literals are written with \<open>asc\<close>; the few
  non-ASCII characters of the source's literals are given by their code points.
\<close>

type_synonym pystr = "nat list"

definition asc :: "string \<Rightarrow> pystr" where
  "asc s = map of_char s"

text \<open>
  \<open>str.isspace\<close> of one character, which is also what \<open>str.strip()\<close> removes and
  what \<open>\s\<close> matches in a \<open>str\<close> pattern: the code points 9-13, 28-32, U+0085, U+00A0,
  U+1680, U+2000-U+200A, U+2028, U+2029, U+202F, U+205F and U+3000.
\<close>

definition isspace :: "nat \<Rightarrow> bool" where
  "isspace c \<longleftrightarrow>
     (9 \<le> c \<and> c \<le> 13) \<or> (28 \<le> c \<and> c \<le> 32) \<or> c = 133 \<or> c = 160 \<or> c = 5760 \<or>
     (8192 \<le> c \<and> c \<le> 8202) \<or> c = 8232 \<or> c = 8233 \<or> c = 8239 \<or> c = 8287 \<or> c = 12288"

text \<open>\<open>s.strip()\<close>: leading and trailing white space removed.\<close>

definition strip :: "pystr \<Rightarrow> pystr" where
  "strip s = rev (dropWhile isspace (rev (dropWhile isspace s)))"

text \<open>\<open>sub in s\<close> for two strings: \<open>sub\<close> occurs in \<open>s\<close> as a contiguous run.\<close>

fun contains :: "pystr \<Rightarrow> pystr \<Rightarrow> bool" where
  "contains [] sub = (sub = [])"
| "contains (c # cs) sub = (prefix sub (c # cs) \<or> contains cs sub)"

text \<open>\<open>s.split(sep)\<close> for a separator of one character: every occurrence splits.\<close>

fun split_char :: "nat \<Rightarrow> pystr \<Rightarrow> pystr list" where
  "split_char sep [] = [[]]"
| "split_char sep (c # cs) =
     (if c = sep then [] # split_char sep cs
      else (case split_char sep cs of
              [] \<Rightarrow> [[c]]
            | p # ps \<Rightarrow> (c # p) # ps))"

text \<open>\<open>sep.join(parts)\<close>.\<close>

fun join :: "pystr \<Rightarrow> pystr list \<Rightarrow> pystr" where
  "join sep [] = []"
| "join sep [p] = p"
| "join sep (p # q # ps) = p @ sep @ join sep (q # ps)"

text \<open>
  The Unicode tables of the interpreter that the program consults: \<open>str.lower\<close> (which is
  not a character-wise map: it can lengthen a string and depends on context) and the
  alphanumeric test behind \<open>\w\<close>. They are parameters of the model, so every theorem
  holds whatever the tables are. \<open>ascii_tables\<close> is the instance used to evaluate
  examples; it agrees with Python on text whose cased letters and alphanumerics are ASCII.
\<close>

record unicode =
  lower :: "pystr \<Rightarrow> pystr"
  isalnum :: "nat \<Rightarrow> bool"

definition ascii_lower :: "pystr \<Rightarrow> pystr" where
  "ascii_lower s = map (\<lambda>c. if 65 \<le> c \<and> c \<le> 90 then c + 32 else c) s"

definition ascii_isalnum :: "nat \<Rightarrow> bool" where
  "ascii_isalnum c \<longleftrightarrow> (48 \<le> c \<and> c \<le> 57) \<or> (65 \<le> c \<and> c \<le> 90) \<or> (97 \<le> c \<and> c \<le> 122)"

definition ascii_tables :: unicode where
  "ascii_tables = \<lparr>lower = ascii_lower, isalnum = ascii_isalnum\<rparr>"

section \<open>Memory store (bot/memory.py)\<close>

subsection \<open>Storage key\<close>

text \<open>The character class \<open>[a-zA-Z0-9_.-]\<close> of \<open>_sanitize_user_id\<close>.\<close>

definition safe_char :: "nat \<Rightarrow> bool" where
  "safe_char c \<longleftrightarrow>
     (97 \<le> c \<and> c \<le> 122) \<or> (65 \<le> c \<and> c \<le> 90) \<or> (48 \<le> c \<and> c \<le> 57) \<or>
     c = 95 \<or> c = 46 \<or> c = 45"

text \<open>
  \<open>re.sub(r"[^a-zA-Z0-9_.-]", "_", user_id)\<close> replaces each character outside the class
  by an underscore (code point 95); \<open>sanitized or "anonymous"\<close> replaces the empty string.
\<close>

definition sanitize_user_id :: "pystr \<Rightarrow> pystr" where
  "sanitize_user_id user_id =
     (let sanitized = map (\<lambda>c. if safe_char c then c else 95) user_id
      in if sanitized = [] then asc ''anonymous'' else sanitized)"

subsection \<open>Records and their serialized form\<close>

text \<open>
  The exceptions that the modelled code can raise. \<open>IllTyped\<close> is not a Python exception:
  it marks the places where Python would go on with a value that the declared field types
  of \<open>MemoryRecord\<close> do not admit (a number loaded as a role, say), which this model, typed
  as the dataclass is annotated, does not represent.
\<close>

datatype error =
    AttributeError | TypeError | JSONDecodeError | ZeroDivisionError | UnicodeEncodeError
  | EnvironmentError | ModelError | IllTyped

text \<open>The dataclass \<open>MemoryRecord\<close>; a \<open>dict[str, str]\<close> is a list of key-value pairs.\<close>

record MemoryRecord =
  role :: pystr
  content :: pystr
  metadata :: "(pystr \<times> pystr) list option"
  timestamp :: pystr

text \<open>
  What \<open>json.load\<close> returns and \<open>json.dump\<close> accepts. The text of a file is not
  modelled: a file holds a JSON document, or something \<open>json.load\<close> rejects (a file
  that a failed write has left behind, for one). The file system is taken to accept
  every file name.
\<close>

datatype json =
    JNull | JBool bool | JNumber int | JString pystr
  | JArray "json list" | JObject "(pystr \<times> json) list"

datatype file_content = Parsed json | NotJson

type_synonym directory = "pystr \<rightharpoonup> file_content"

text \<open>
  \<open>MemoryRecord.to_json\<close>: \<open>asdict\<close> lists the fields in declaration order, and a
  metadata of \<open>None\<close> is popped from the payload.
\<close>

definition to_json :: "MemoryRecord \<Rightarrow> json" where
  "to_json r =
     (case metadata r of
        None \<Rightarrow>
          JObject [(asc ''role'', JString (role r)), (asc ''content'', JString (content r)),
                   (asc ''timestamp'', JString (timestamp r))]
      | Some md \<Rightarrow>
          JObject [(asc ''role'', JString (role r)), (asc ''content'', JString (content r)),
                   (asc ''metadata'', JObject (map (\<lambda>(k, v). (k, JString v)) md)),
                   (asc ''timestamp'', JString (timestamp r))])"

text \<open>\<open>_memory_file\<close>: the file of a user inside the base directory.\<close>

definition memory_file :: "pystr \<Rightarrow> pystr" where
  "memory_file user_id = sanitize_user_id user_id @ asc ''.json''"

text \<open>\<open>item.get(key, default)\<close> read as a string field of a record.\<close>

definition get_str :: "(pystr \<times> json) list \<Rightarrow> pystr \<Rightarrow> pystr \<Rightarrow> error + pystr" where
  "get_str item key dflt =
     (case map_of item key of
        None \<Rightarrow> Inr dflt
      | Some (JString s) \<Rightarrow> Inr s
      | Some _ \<Rightarrow> Inl IllTyped)"

fun metadata_values :: "(pystr \<times> json) list \<Rightarrow> error + (pystr \<times> pystr) list" where
  "metadata_values [] = Inr []"
| "metadata_values ((k, JString v) # kvs) =
     (case metadata_values kvs of Inl e \<Rightarrow> Inl e | Inr md \<Rightarrow> Inr ((k, v) # md))"
| "metadata_values ((k, _) # kvs) = Inl IllTyped"

text \<open>\<open>item.get("metadata")\<close>: absent and \<open>null\<close> both give \<open>None\<close>.\<close>

definition get_metadata :: "(pystr \<times> json) list \<Rightarrow> error + (pystr \<times> pystr) list option" where
  "get_metadata item =
     (case map_of item (asc ''metadata'') of
        None \<Rightarrow> Inr None
      | Some JNull \<Rightarrow> Inr None
      | Some (JObject kvs) \<Rightarrow>
          (case metadata_values kvs of Inl e \<Rightarrow> Inl e | Inr md \<Rightarrow> Inr (Some md))
      | Some _ \<Rightarrow> Inl IllTyped)"

text \<open>
  One turn of the loop of \<open>load_history\<close>. \<open>now\<close> is the clock reading taken while the
  item is processed: the default of the time stamp is computed for every item, and used
  only when the item has none. An item that is not an object has no \<open>get\<close>.
\<close>

fun load_item :: "pystr \<Rightarrow> json \<Rightarrow> error + MemoryRecord" where
  "load_item now (JObject kvs) =
     (case get_str kvs (asc ''role'') (asc ''assistant'') of
        Inl e \<Rightarrow> Inl e
      | Inr r \<Rightarrow>
     (case get_str kvs (asc ''content'') [] of
        Inl e \<Rightarrow> Inl e
      | Inr c \<Rightarrow>
     (case get_metadata kvs of
        Inl e \<Rightarrow> Inl e
      | Inr m \<Rightarrow>
     (case get_str kvs (asc ''timestamp'') now of
        Inl e \<Rightarrow> Inl e
      | Inr t \<Rightarrow> Inr \<lparr>role = r, content = c, metadata = m, timestamp = t\<rparr>))))"
| "load_item now _ = Inl AttributeError"

text \<open>The loop over the items; \<open>clock k\<close> is the \<open>k\<close>-th clock reading of the call.\<close>

fun load_items :: "(nat \<Rightarrow> pystr) \<Rightarrow> nat \<Rightarrow> json list \<Rightarrow> error + MemoryRecord list" where
  "load_items clock k [] = Inr []"
| "load_items clock k (item # items) =
     (case load_item (clock k) item of
        Inl e \<Rightarrow> Inl e
      | Inr r \<Rightarrow>
          (case load_items clock (Suc k) items of
             Inl e \<Rightarrow> Inl e
           | Inr rs \<Rightarrow> Inr (r # rs)))"

text \<open>
  \<open>MemoryManager.load_history\<close>. A missing file is the empty history. The payload must
  be an object to have \<open>get\<close>; \<open>for item in payload.get("history", [])\<close> iterates a list,
  and also an empty string or an empty object (no turn of the loop), fails on the first
  character of a string and on the first key of an object (a \<open>str\<close> has no \<open>get\<close>), and
  cannot iterate \<open>null\<close>, a number or a boolean.
\<close>

definition load_history :: "directory \<Rightarrow> (nat \<Rightarrow> pystr) \<Rightarrow> pystr \<Rightarrow> error + MemoryRecord list" where
  "load_history dir clock user_id =
     (case dir (memory_file user_id) of
        None \<Rightarrow> Inr []
      | Some NotJson \<Rightarrow> Inl JSONDecodeError
      | Some (Parsed (JObject payload)) \<Rightarrow>
          (case map_of payload (asc ''history'') of
             None \<Rightarrow> Inr []
           | Some (JArray items) \<Rightarrow> load_items clock 0 items
           | Some (JString s) \<Rightarrow> (if s = [] then Inr [] else Inl AttributeError)
           | Some (JObject kvs) \<Rightarrow> (if kvs = [] then Inr [] else Inl AttributeError)
           | Some _ \<Rightarrow> Inl TypeError)
      | Some (Parsed _) \<Rightarrow> Inl AttributeError)"

text \<open>
  The file is opened with \<open>encoding="utf-8"\<close> and written with \<open>ensure_ascii=False\<close>, so
  every string of the payload is encoded as it is. UTF-8 has no encoding for a lone
  surrogate (U+D800 to U+DFFF), which a Python string can hold: from an escape in a JSON
  file, or from undecodable bytes of the command line or the standard input.
\<close>

definition is_surrogate :: "nat \<Rightarrow> bool" where
  "is_surrogate c \<longleftrightarrow> 55296 \<le> c \<and> c \<le> 57343"

definition encodable :: "pystr \<Rightarrow> bool" where
  "encodable s = list_all (\<lambda>c. \<not> is_surrogate c) s"

definition record_encodable :: "MemoryRecord \<Rightarrow> bool" where
  "record_encodable r \<longleftrightarrow>
     encodable (role r) \<and> encodable (content r)
     \<and> (case metadata r of
           None \<Rightarrow> True
         | Some md \<Rightarrow> list_all (\<lambda>(k, v). encodable k \<and> encodable v) md)
     \<and> encodable (timestamp r)"

text \<open>The local \<open>payload\<close> of \<open>save_history\<close>; \<open>now\<close> is the clock reading for \<open>updated_at\<close>.\<close>

definition payload :: "pystr \<Rightarrow> MemoryRecord list \<Rightarrow> pystr \<Rightarrow> json" where
  "payload user_id history now =
     JObject [(asc ''user_id'', JString user_id),
              (asc ''history'', JArray (map to_json history)),
              (asc ''updated_at'', JString now)]"

text \<open>
  \<open>MemoryManager.save_history\<close>. Opening the file for writing empties it, and
  \<open>json.dump\<close> writes the payload piece by piece. When every string can be encoded the
  file holds the payload afterwards. Otherwise the write raises \<open>UnicodeEncodeError\<close>
  at the first string that cannot, and what is left is the beginning of a document, which
  \<open>json.load\<close> rejects. The result is the exception together with the directory, or
  the directory alone.
\<close>

definition save_history ::
  "directory \<Rightarrow> pystr \<Rightarrow> pystr \<Rightarrow> MemoryRecord list \<Rightarrow> error \<times> directory + directory" where
  "save_history dir now user_id history =
     (if encodable user_id \<and> list_all record_encodable history \<and> encodable now
      then Inr (dir(memory_file user_id \<mapsto> Parsed (payload user_id history now)))
      else Inl (UnicodeEncodeError, dir(memory_file user_id \<mapsto> NotJson)))"

section \<open>Persona transformer (bot/persona.py)\<close>

record PaimonPersona =
  name :: pystr
  referential_third_person :: bool
  closing_emotes :: "pystr list"

text \<open>The defaults of the dataclass; the emotes are U+2606, U+2728, U+266A and U+2604 U+FE0F.\<close>

definition default_persona :: PaimonPersona where
  "default_persona =
     \<lparr>name = asc ''Paimon'', referential_third_person = True,
      closing_emotes = [[9734], [10024], [9834], [9732, 65039]]\<rparr>"

text \<open>
  \<open>_decorate_sentence\<close>. \<open>sentence[-1]\<close> is read only from a non-empty string: the empty
  one has returned before, and the rewriting only lengthens (lemma
  \<open>decorate_sentence_nonempty\<close> below).
\<close>

definition decorate_sentence :: "unicode \<Rightarrow> PaimonPersona \<Rightarrow> pystr \<Rightarrow> pystr" where
  "decorate_sentence U p sentence0 =
     (let sentence = strip sentence0 in
      if sentence = [] then sentence
      else
        let sentence =
              (if referential_third_person p \<and> \<not> prefix (lower U (name p)) (lower U sentence)
               then
                 (let lowered =
                        (if length sentence > 1 then lower U [hd sentence] @ tl sentence
                         else lower U sentence)
                  in name p @ asc '' piensa que '' @ lowered)
               else sentence)
        in if last sentence \<noteq> 33 \<and> last sentence \<noteq> 63 then sentence @ [33] else sentence)"

text \<open>The fixed sentences of \<open>stylize\<close>.\<close>

definition confused :: pystr where
  "confused = [161] @ asc ''Paimon est'' @ [225] @ asc '' un poco confundida ahora mismo!''"

definition no_words :: pystr where
  "no_words = [161] @ asc ''Paimon no encuentra palabras para esto!''"

definition awareness_clause :: pystr where
  "awareness_clause = asc '' Paimon recuerda que es una bot gu'' @ [237] @ asc ''a.''"

text \<open>
  The local \<open>sentences\<close> of \<open>stylize\<close>: the pieces between the periods of the text, after
  its newlines have become spaces, each one stripped.
\<close>

definition sentences :: "pystr \<Rightarrow> pystr list" where
  "sentences text = map strip (split_char 46 (map (\<lambda>c. if c = 10 then 32 else c) text))"

text \<open>
  The local \<open>awareness\<close>: empty when the caller passes a non-empty collection of tags that
  has \<open>"command"\<close> in it.
\<close>

definition awareness :: "pystr list option \<Rightarrow> pystr" where
  "awareness context_tags =
     (if (case context_tags of None \<Rightarrow> False
          | Some tags \<Rightarrow> tags \<noteq> [] \<and> asc ''command'' \<in> set tags)
      then [] else awareness_clause)"

text \<open>
  \<open>stylize\<close>. The index of the emote is computed modulo the number of emotes, which
  raises \<open>ZeroDivisionError\<close> for a persona without emotes.
\<close>

definition stylize :: "unicode \<Rightarrow> PaimonPersona \<Rightarrow> pystr list option \<Rightarrow> pystr \<Rightarrow> error + pystr" where
  "stylize U p context_tags text0 =
     (let text = strip text0 in
      if text = [] then Inr confused
      else
        let decorated = map (decorate_sentence U p)
                          (filter (\<lambda>sentence. sentence \<noteq> []) (sentences text));
            decorated = (if decorated = [] then [no_words] else decorated)
        in if closing_emotes p = [] then Inl ZeroDivisionError
           else
             let suffix = [32] @ closing_emotes p ! (length decorated mod length (closing_emotes p))
             in Inr (join [32] decorated @ awareness context_tags @ suffix))"

section \<open>Command reference (bot/command_docs.py)\<close>

text \<open>
  The dataclass \<open>CommandDocument\<close>: its fields \<open>name\<close>, \<open>content\<close> and \<open>path\<close> (the path
  as the string that \<open>as_posix\<close> gives), under names that no other record uses.
\<close>

record CommandDocument =
  doc_name :: pystr
  doc_content :: pystr
  doc_path :: pystr

text \<open>\<open>content.split('\n\n')\<close>: occurrences of the separator are found from the left.\<close>

fun split_blank_line :: "pystr \<Rightarrow> pystr list" where
  "split_blank_line [] = [[]]"
| "split_blank_line [c] = [[c]]"
| "split_blank_line (c # d # cs) =
     (if c = 10 \<and> d = 10 then [] # split_blank_line cs
      else (case split_blank_line (d # cs) of
              [] \<Rightarrow> [[c]]
            | p # ps \<Rightarrow> (c # p) # ps))"

definition summary :: "CommandDocument \<Rightarrow> pystr" where
  "summary d =
     (let sections = map strip (filter (\<lambda>section. strip section \<noteq> [])
                                  (split_blank_line (doc_content d)))
      in case sections of [] \<Rightarrow> strip (doc_content d) | first # _ \<Rightarrow> first)"

text \<open>
  \<open>CommandDocumentation._documents\<close> is a \<open>dict\<close>: the documents by key, in insertion
  order. Assigning to a key that is present replaces the value where it stands, and a new
  key goes to the end, which is \<open>AList.update\<close>.
\<close>

type_synonym CommandDocumentation = "(pystr \<times> CommandDocument) list"

text \<open>What the program reads of a documentation file: its stem, its text and its path.\<close>

record md_file =
  stem :: pystr
  file_text :: pystr
  as_posix :: pystr

text \<open>\<open>_load_documents\<close> over the files that \<open>glob("*.md")\<close> lists, in its order.\<close>

definition load_documents :: "unicode \<Rightarrow> md_file list \<Rightarrow> CommandDocumentation \<Rightarrow> CommandDocumentation" where
  "load_documents U files documents =
     fold (\<lambda>f docs.
             let key = lower U (stem f)
             in AList.update key \<lparr>doc_name = key, doc_content = file_text f, doc_path = as_posix f\<rparr> docs)
          files documents"

text \<open>The constructor and \<open>refresh\<close>: a missing directory (\<open>None\<close>) loads nothing.\<close>

definition CommandDocumentation_init :: "unicode \<Rightarrow> md_file list option \<Rightarrow> CommandDocumentation" where
  "CommandDocumentation_init U docs_directory =
     (case docs_directory of None \<Rightarrow> [] | Some files \<Rightarrow> load_documents U files [])"

definition available_commands :: "CommandDocumentation \<Rightarrow> pystr list" where
  "available_commands documents = map fst documents"

definition get :: "unicode \<Rightarrow> CommandDocumentation \<Rightarrow> pystr \<Rightarrow> CommandDocument option" where
  "get U documents command_name = map_of documents (lower U command_name)"

text \<open>The loop of \<open>find_best_match\<close> over \<open>_documents.items()\<close>.\<close>

fun first_related :: "pystr \<Rightarrow> CommandDocumentation \<Rightarrow> CommandDocument option" where
  "first_related normalized [] = None"
| "first_related normalized ((key, document) # rest) =
     (if contains normalized key \<or> contains key normalized then Some document
      else first_related normalized rest)"

definition find_best_match :: "unicode \<Rightarrow> CommandDocumentation \<Rightarrow> pystr \<Rightarrow> CommandDocument option" where
  "find_best_match U documents query =
     (let normalized = lower U query
      in if normalized \<in> set (map fst documents) then map_of documents normalized
         else first_related normalized documents)"

section \<open>Conversation orchestrator (bot/chatbot.py)\<close>

subsection \<open>The command pattern\<close>

text \<open>
  \<open>COMMAND_PATTERN\<close> is \<open>(?:!|/)?(?:comando|command|cmd)[:\s]+(?P<name>[\w-]+)\<close> with
  \<open>re.IGNORECASE\<close>. The matcher below follows the backtracking search of \<open>re\<close>: start
  positions from the left, and at each one the greedy choice first. Under
  \<open>IGNORECASE\<close> each of the letters c, o, m, a, n, d matches itself and its ASCII capital
  only (no other code point lowers to one of them).
\<close>

definition ci_eq :: "nat \<Rightarrow> nat \<Rightarrow> bool" where
  "ci_eq letter c \<longleftrightarrow> c = letter \<or> c + 32 = letter"

text \<open>A literal word at the start of \<open>s\<close>, case-insensitively: the rest of \<open>s\<close> after it.\<close>

fun match_word :: "pystr \<Rightarrow> pystr \<Rightarrow> pystr option" where
  "match_word [] s = Some s"
| "match_word (l # ls) [] = None"
| "match_word (l # ls) (c # cs) = (if ci_eq l c then match_word ls cs else None)"

text \<open>The classes \<open>[:\s]\<close> and \<open>[\w-]\<close>; \<open>\w\<close> is an alphanumeric or the underscore.\<close>

definition is_separator :: "nat \<Rightarrow> bool" where
  "is_separator c \<longleftrightarrow> c = 58 \<or> isspace c"

definition is_name_char :: "unicode \<Rightarrow> nat \<Rightarrow> bool" where
  "is_name_char U c \<longleftrightarrow> isalnum U c \<or> c = 95 \<or> c = 45"

text \<open>\<open>(?P<name>[\w-]+)\<close> at the start of \<open>s\<close>: the longest run, which must not be empty.\<close>

definition match_name :: "unicode \<Rightarrow> pystr \<Rightarrow> pystr option" where
  "match_name U s =
     (let run = takeWhile (is_name_char U) s in if run = [] then None else Some run)"

text \<open>
  \<open>[:\s]+\<close> followed by the name: \<open>k\<close> separators are consumed, the most possible first,
  and one fewer after each failure of what follows, down to one.
\<close>

fun match_separators :: "unicode \<Rightarrow> nat \<Rightarrow> pystr \<Rightarrow> pystr option" where
  "match_separators U 0 s = None"
| "match_separators U (Suc k) s =
     (case match_name U (drop (Suc k) s) of
        Some candidate \<Rightarrow> Some candidate
      | None \<Rightarrow> match_separators U k s)"

definition match_tail :: "unicode \<Rightarrow> pystr \<Rightarrow> pystr option" where
  "match_tail U s = match_separators U (length (takeWhile is_separator s)) s"

text \<open>\<open>(?:comando|command|cmd)\<close> and what follows: the alternatives in their order.\<close>

fun match_command_words :: "unicode \<Rightarrow> pystr list \<Rightarrow> pystr \<Rightarrow> pystr option" where
  "match_command_words U [] s = None"
| "match_command_words U (w # ws) s =
     (case (case match_word w s of None \<Rightarrow> None | Some rest \<Rightarrow> match_tail U rest) of
        Some candidate \<Rightarrow> Some candidate
      | None \<Rightarrow> match_command_words U ws s)"

definition command_words :: "pystr list" where
  "command_words = [asc ''comando'', asc ''command'', asc ''cmd'']"

text \<open>
  The whole pattern at one start position: with the marker \<open>!\<close> or \<open>/\<close> consumed when
  there is one, and without it when that fails.
\<close>

definition match_here :: "unicode \<Rightarrow> pystr \<Rightarrow> pystr option" where
  "match_here U s =
     (case (case s of
              [] \<Rightarrow> None
            | c # cs \<Rightarrow> if c = 33 \<or> c = 47 then match_command_words U command_words cs else None) of
        Some candidate \<Rightarrow> Some candidate
      | None \<Rightarrow> match_command_words U command_words s)"

text \<open>\<open>COMMAND_PATTERN.search(message)\<close>, giving \<open>match.group("name")\<close> of the first match.\<close>

fun COMMAND_PATTERN_search :: "unicode \<Rightarrow> pystr \<Rightarrow> pystr option" where
  "COMMAND_PATTERN_search U [] = match_here U []"
| "COMMAND_PATTERN_search U (c # cs) =
     (case match_here U (c # cs) of
        Some candidate \<Rightarrow> Some candidate
      | None \<Rightarrow> COMMAND_PATTERN_search U cs)"

subsection \<open>The chat object\<close>

text \<open>
  One entry of the prompt, \<open>{"role": ..., "parts": [...]}\<close>, and the model boundary:
  \<open>generate_content\<close> either raises or returns a response, whose \<open>text\<close> attribute may be
  missing (\<open>None\<close>). The generation configuration is a constant and is left out.
\<close>

record turn =
  turn_role :: pystr
  parts :: "pystr list"

type_synonym generative_model = "turn list \<Rightarrow> error + pystr option"

record PaibotChat =
  persona :: PaimonPersona
  command_docs :: CommandDocumentation
  history_window :: int
  mention_aliases :: "pystr list"
  model :: generative_model

definition default_aliases :: "pystr list" where
  "default_aliases = [asc ''paibot'', asc ''@paibot'', asc ''paimon'']"

text \<open>
  \<open>PaibotChat.__init__\<close>. An argument left out is \<open>None\<close>; \<open>commands_directory\<close> is what
  the default \<open>CommandDocumentation()\<close> finds on disk; \<open>api_key\<close> is the environment
  variable and \<open>gemini\<close> the model that \<open>genai.GenerativeModel\<close> builds with it.
\<close>

definition PaibotChat_init ::
  "unicode \<Rightarrow> PaimonPersona option \<Rightarrow> CommandDocumentation option \<Rightarrow> md_file list option \<Rightarrow>
   generative_model option \<Rightarrow> int \<Rightarrow> pystr list option \<Rightarrow> pystr option \<Rightarrow> generative_model \<Rightarrow>
   error + PaibotChat" where
  "PaibotChat_init U persona_arg command_docs_arg commands_directory model_arg
                   history_window_arg mention_aliases_arg api_key gemini =
     (let persona_v = (case persona_arg of None \<Rightarrow> default_persona | Some p \<Rightarrow> p);
          docs_v = (case command_docs_arg of
                      None \<Rightarrow> CommandDocumentation_init U commands_directory
                    | Some d \<Rightarrow> d);
          window_v = max history_window_arg 1;
          aliases_v = map (lower U)
                        (case mention_aliases_arg of
                           None \<Rightarrow> default_aliases
                         | Some aliases \<Rightarrow> if aliases = [] then default_aliases else aliases)
      in case model_arg of
           Some m \<Rightarrow>
             Inr \<lparr>persona = persona_v, command_docs = docs_v, history_window = window_v,
                  mention_aliases = aliases_v, model = m\<rparr>
         | None \<Rightarrow>
             (case api_key of
                None \<Rightarrow> Inl EnvironmentError
              | Some key \<Rightarrow>
                  if key = [] then Inl EnvironmentError
                  else Inr \<lparr>persona = persona_v, command_docs = docs_v, history_window = window_v,
                            mention_aliases = aliases_v, model = gemini\<rparr>))"

subsection \<open>Classification\<close>

definition is_mention :: "unicode \<Rightarrow> PaibotChat \<Rightarrow> pystr \<Rightarrow> bool" where
  "is_mention U chat message =
     (let normalized = lower U message
      in list_ex (\<lambda>alias. contains normalized alias) (mention_aliases chat))"

text \<open>The loop of \<open>_resolve_command_query\<close> over \<open>available_commands()\<close>.\<close>

fun containment_scan :: "unicode \<Rightarrow> CommandDocumentation \<Rightarrow> pystr \<Rightarrow> pystr list \<Rightarrow> CommandDocument option" where
  "containment_scan U documents normalized [] = None"
| "containment_scan U documents normalized (key # keys) =
     (if contains normalized key then get U documents key
      else containment_scan U documents normalized keys)"

definition resolve_command_query :: "unicode \<Rightarrow> CommandDocumentation \<Rightarrow> pystr \<Rightarrow> CommandDocument option" where
  "resolve_command_query U documents message =
     (case COMMAND_PATTERN_search U message of
        Some candidate \<Rightarrow>
          (case get U documents candidate of
             Some document \<Rightarrow> Some document
           | None \<Rightarrow> find_best_match U documents candidate)
      | None \<Rightarrow>
          containment_scan U documents (lower U message) (available_commands documents))"

subsection \<open>Answers\<close>

text \<open>\<open>_format_command_response\<close>; 96 is the backquote, 10 the newline.\<close>

definition format_command_response :: "CommandDocument \<Rightarrow> pystr" where
  "format_command_response document =
     asc ''El comando '' @ [96] @ doc_name document @ [96] @ asc '' funciona as'' @ [237] @
     asc '':'' @ [10] @ summary document @ [10, 10] @
     asc ''Puedes revisar el archivo '' @ [96] @ doc_path document @ [96] @
     asc '' para m'' @ [225] @ asc ''s ejemplos detallados.''"

text \<open>\<open>xs[i:]\<close> of Python, for any integer \<open>i\<close>: a negative start counts from the end.\<close>

definition slice_from :: "int \<Rightarrow> 'a list \<Rightarrow> 'a list" where
  "slice_from i xs =
     (if i < 0 then drop (nat (max 0 (int (length xs) + i))) xs else drop (nat i) xs)"

definition recent_history :: "PaibotChat \<Rightarrow> MemoryRecord list \<Rightarrow> MemoryRecord list" where
  "recent_history chat history =
     (if int (length history) \<le> history_window chat then history
      else slice_from (- history_window chat) history)"

definition trim_history :: "PaibotChat \<Rightarrow> MemoryRecord list \<Rightarrow> MemoryRecord list" where
  "trim_history chat history =
     (let max_records = history_window chat * 2
      in if int (length history) \<le> max_records then history
         else slice_from (- max_records) history)"

definition mention_instruction :: pystr where
  "mention_instruction =
     asc ''El usuario acaba de mencionar a Paibot. Responde con un tono alegre inspirado en Paimon, sin olvidar''
     @ asc '' que eres una bot.''"

text \<open>
  The prompt that \<open>_generate_model_reply\<close> builds before it calls the model;
  \<open>history_turn\<close> is the body of its loop over the recent records.
\<close>

definition history_turn :: "MemoryRecord \<Rightarrow> turn" where
  "history_turn record =
     \<lparr>turn_role = (if role record = asc ''user'' then asc ''user'' else asc ''model''),
      parts = [content record]\<rparr>"

definition build_contents :: "PaibotChat \<Rightarrow> MemoryRecord list \<Rightarrow> pystr \<Rightarrow> bool \<Rightarrow> turn list" where
  "build_contents chat history message mention =
     map history_turn (recent_history chat history)
     @ (if mention then [\<lparr>turn_role = asc ''user'', parts = [mention_instruction]\<rparr>] else [])
     @ [\<lparr>turn_role = asc ''user'', parts = [message]\<rparr>]"

definition still_thinking :: pystr where
  "still_thinking =
     asc ''Paimon todav'' @ [237] @ asc ''a est'' @ [225] @ asc '' pensando en la respuesta.''"

text \<open>
  \<open>_generate_model_reply\<close>: an exception of the model propagates;
  \<open>getattr(response, "text", "")\<close> is the empty string when the attribute is missing.
\<close>

definition generate_model_reply ::
  "PaibotChat \<Rightarrow> MemoryRecord list \<Rightarrow> pystr \<Rightarrow> bool \<Rightarrow> error + pystr" where
  "generate_model_reply chat history message mention =
     (case model chat (build_contents chat history message mention) of
        Inl e \<Rightarrow> Inl e
      | Inr response \<Rightarrow>
          (let text = (case response of None \<Rightarrow> [] | Some t \<Rightarrow> t)
           in Inr (if strip text = [] then still_thinking else strip text)))"

subsection \<open>One turn\<close>

definition heard_nothing :: pystr where
  "heard_nothing =
     asc ''Paimon no escuch'' @ [243] @ asc '' nada, '' @ [161] @ asc ''intenta decir algo de nuevo!''"

text \<open>\<open>str(mention).lower()\<close> is \<open>"true"\<close> or \<open>"false"\<close>.\<close>

definition mention_flag :: "bool \<Rightarrow> pystr" where
  "mention_flag mention = (if mention then asc ''true'' else asc ''false'')"

text \<open>
  The local \<open>updated_history\<close> of \<open>respond\<close>: the loaded history and the two records of
  the turn, with the clock readings \<open>now_user\<close> and \<open>now_assistant\<close> as their time stamps.
\<close>

definition updated_history ::
  "MemoryRecord list \<Rightarrow> pystr \<Rightarrow> pystr \<Rightarrow> bool \<Rightarrow> pystr \<Rightarrow> pystr \<Rightarrow> MemoryRecord list" where
  "updated_history history message final_response mention now_user now_assistant =
     history @
       [\<lparr>role = asc ''user'', content = message, metadata = None, timestamp = now_user\<rparr>,
        \<lparr>role = asc ''assistant'', content = final_response,
         metadata = Some [(asc ''mention'', mention_flag mention)],
         timestamp = now_assistant\<rparr>]"

text \<open>
  \<open>PaibotChat.respond\<close>. The directory of the memory manager is passed in and returned;
  \<open>clock k\<close> is the \<open>k\<close>-th reading of the clock during the call: one for each stored item
  that is loaded, then one for each of the two new records, then one for \<open>updated_at\<close>.
  An exception comes with the directory as the call leaves it: unchanged, unless it is
  the write that fails.
\<close>

definition respond ::
  "unicode \<Rightarrow> PaibotChat \<Rightarrow> (nat \<Rightarrow> pystr) \<Rightarrow> directory \<Rightarrow> pystr \<Rightarrow> pystr \<Rightarrow>
   error \<times> directory + pystr \<times> directory" where
  "respond U chat clock dir user_id message0 =
     (let message = strip message0 in
      if message = [] then Inr (heard_nothing, dir)
      else
        case load_history dir clock user_id of
          Inl e \<Rightarrow> Inl (e, dir)
        | Inr history \<Rightarrow>
            (let mention = is_mention U chat message;
                 command_document = resolve_command_query U (command_docs chat) message
             in case (case command_document of
                        Some document \<Rightarrow> Inr (format_command_response document)
                      | None \<Rightarrow> generate_model_reply chat history message mention) of
                  Inl e \<Rightarrow> Inl (e, dir)
                | Inr base_response \<Rightarrow>
                    (case (if mention then stylize U (persona chat) None base_response
                           else Inr base_response) of
                       Inl e \<Rightarrow> Inl (e, dir)
                     | Inr final_response \<Rightarrow>
                         (let n = length history;
                              trimmed_history =
                                trim_history chat
                                  (updated_history history message final_response mention
                                     (clock n) (clock (Suc n)))
                          in case save_history dir (clock (Suc (Suc n))) user_id
                                    trimmed_history of
                               Inl (e, dir') \<Rightarrow> Inl (e, dir')
                             | Inr dir' \<Rightarrow> Inr (final_response, dir')))))"

subsection \<open>A sequence of turns\<close>

text \<open>
  Turn after turn on one chat object, each turn with its own clock readings, user and
  message; the first exception ends the sequence. The replies are not kept.
\<close>

fun turns ::
  "unicode \<Rightarrow> PaibotChat \<Rightarrow> directory \<Rightarrow> ((nat \<Rightarrow> pystr) \<times> pystr \<times> pystr) list \<Rightarrow>
   error \<times> directory + directory" where
  "turns U chat dir [] = Inr dir"
| "turns U chat dir ((clock, user_id, message) # rest) =
     (case respond U chat clock dir user_id message of
        Inl (e, dir') \<Rightarrow> Inl (e, dir')
      | Inr (reply, dir') \<Rightarrow> turns U chat dir' rest)"

section \<open>Specification predicates and examples\<close>

text \<open>
  Lower-casing a string of one character gives a string that ends in \<open>!\<close> or \<open>?\<close> exactly
  when the character is one of the two. This holds of \<open>str.lower\<close>, which changes cased
  letters only and never returns the empty string for a character.
\<close>

definition keeps_marks :: "unicode \<Rightarrow> bool" where
  "keeps_marks U \<longleftrightarrow>
     (\<forall>c. (lower U [c] \<noteq> [] \<and> (last (lower U [c]) = 33 \<or> last (lower U [c]) = 63))
          = (c = 33 \<or> c = 63))"

text \<open>
  Two documentation files, \<open>commands/Jump.md\<close> and \<open>commands/spawn.md\<close>, and the command
  reference loaded from them.
\<close>

definition example_files :: "md_file list" where
  "example_files =
     [\<lparr>stem = asc ''Jump'',
       file_text = asc ''Salta una vez.'' @ [10, 10] @ asc ''Uso: jump'',
       as_posix = asc ''commands/Jump.md''\<rparr>,
      \<lparr>stem = asc ''spawn'',
       file_text = asc ''Crea un objeto.'',
       as_posix = asc ''commands/spawn.md''\<rparr>]"

definition jump_document :: CommandDocument where
  "jump_document =
     \<lparr>doc_name = asc ''jump'',
      doc_content = asc ''Salta una vez.'' @ [10, 10] @ asc ''Uso: jump'',
      doc_path = asc ''commands/Jump.md''\<rparr>"

definition spawn_document :: CommandDocument where
  "spawn_document =
     \<lparr>doc_name = asc ''spawn'', doc_content = asc ''Crea un objeto.'',
      doc_path = asc ''commands/spawn.md''\<rparr>"

definition example_docs :: CommandDocumentation where
  "example_docs = CommandDocumentation_init ascii_tables (Some example_files)"

text \<open>
  The command pattern in the words of the specification: somewhere in the message stand
  an optional marker \<open>!\<close> or \<open>/\<close>, one of the command words in any mix of cases, at least one
  separator (a colon or white space) and a non-empty identifier of word characters and
  hyphens, which is the candidate; \<open>rest\<close> is what follows the candidate.
\<close>

definition command_pattern_in :: "unicode \<Rightarrow> pystr \<Rightarrow> pystr \<Rightarrow> pystr \<Rightarrow> bool" where
  "command_pattern_in U message candidate rest \<longleftrightarrow>
     (\<exists>before marker word separators.
        message = before @ marker @ word @ separators @ candidate @ rest
        \<and> (marker = [] \<or> marker = [33] \<or> marker = [47])
        \<and> (\<exists>w \<in> set command_words. list_all2 ci_eq w word)
        \<and> separators \<noteq> [] \<and> list_all is_separator separators
        \<and> candidate \<noteq> [] \<and> list_all (is_name_char U) candidate)"

text \<open>
  A model that answers every prompt with the same text, a clock that stands still, and
  the chat object that the constructor builds from them, the example reference and a
  given window.
\<close>

definition example_model :: generative_model where
  "example_model contents = Inr (Some (asc '' Hola, viajero. ''))"

definition example_clock :: "nat \<Rightarrow> pystr" where
  "example_clock k = asc ''2024-01-01T00:00:00.000000Z''"

definition example_chat :: "int \<Rightarrow> PaibotChat" where
  "example_chat w =
     \<lparr>persona = default_persona, command_docs = example_docs, history_window = max w 1,
      mention_aliases = default_aliases, model = example_model\<rparr>"

text \<open>
  The two records of a turn without a mention, as \<open>respond\<close> appends them under the
  example clock, and a directory in which the user \<open>u\<close> has one such turn stored.
\<close>

definition example_turn :: "pystr \<Rightarrow> pystr \<Rightarrow> MemoryRecord list" where
  "example_turn message reply =
     [\<lparr>role = asc ''user'', content = message, metadata = None,
       timestamp = asc ''2024-01-01T00:00:00.000000Z''\<rparr>,
      \<lparr>role = asc ''assistant'', content = reply,
       metadata = Some [(asc ''mention'', asc ''false'')],
       timestamp = asc ''2024-01-01T00:00:00.000000Z''\<rparr>]"

definition example_dir :: directory where
  "example_dir =
     Map.empty(memory_file (asc ''u'') \<mapsto>
       Parsed (payload (asc ''u'') (example_turn (asc ''Buenas'') (asc ''Hola, viajero.''))
                 (asc ''2024-01-01T00:00:00.000000Z'')))"

section \<open>Properties of the string operations\<close>

lemma strip_eq_Nil_iff: "strip s = [] \<longleftrightarrow> list_all isspace s"
proof
  assume "strip s = []"
  then have a: "\<forall>x\<in>set (dropWhile isspace s). isspace x"
    by (simp add: strip_def)
  have "dropWhile isspace s = []"
  proof (rule ccontr)
    assume n: "dropWhile isspace s \<noteq> []"
    then have "\<not> isspace (hd (dropWhile isspace s))" by (rule hd_dropWhile)
    moreover have "hd (dropWhile isspace s) \<in> set (dropWhile isspace s)" using n by simp
    ultimately show False using a by blast
  qed
  then show "list_all isspace s" by (simp add: list_all_iff)
next
  assume "list_all isspace s"
  then have "dropWhile isspace s = []" by (simp add: list_all_iff)
  then show "strip s = []" unfolding strip_def by (simp only: rev.simps dropWhile.simps)
qed

lemma strip_ends:
  assumes "strip s \<noteq> []"
  shows "\<not> isspace (hd (strip s))" and "\<not> isspace (last (strip s))"
proof -
  let ?d = "dropWhile isspace s"
  let ?r = "dropWhile isspace (rev ?d)"
  from assms have r: "?r \<noteq> []" by (simp add: strip_def)
  then have d: "?d \<noteq> []" by (metis dropWhile.simps(1) rev.simps(1))
  have "last (strip s) = hd ?r" using r by (simp add: strip_def last_rev)
  then show "\<not> isspace (last (strip s))" using hd_dropWhile [OF r] by simp
  have "\<not> isspace (hd ?d)" using d by (rule hd_dropWhile)
  moreover have "hd (strip s) = hd ?d"
  proof -
    have "strip s = rev ?r" by (simp add: strip_def)
    obtain ys where ys: "rev ?d = takeWhile isspace (rev ?d) @ ?r" by simp
    have "?d = rev ?r @ rev (takeWhile isspace (rev ?d))"
      by (metis rev_append rev_rev_ident takeWhile_dropWhile_id)
    then have "hd ?d = hd (rev ?r)" using r by (metis hd_append2 rev_is_Nil_conv)
    then show ?thesis by (simp add: strip_def)
  qed
  ultimately show "\<not> isspace (hd (strip s))" by simp
qed

lemma strip_id:
  assumes "t \<noteq> []" "\<not> isspace (hd t)" "\<not> isspace (last t)"
  shows "strip t = t"
proof -
  have "dropWhile isspace t = t" using assms by (cases t) simp_all
  moreover have "dropWhile isspace (rev t) = rev t"
    using assms by (cases "rev t") (simp_all add: hd_rev[symmetric])
  ultimately show ?thesis by (simp add: strip_def)
qed

lemma strip_strip: "strip (strip s) = strip s"
proof (cases "strip s = []")
  case True
  have "strip [] = []" unfolding strip_def by (simp only: rev.simps dropWhile.simps)
  with True show ?thesis by simp
next
  case False
  then show ?thesis by (simp add: strip_id strip_ends)
qed

lemma strip_nonblank: "c \<in> set s \<Longrightarrow> \<not> isspace c \<Longrightarrow> strip s \<noteq> []"
  by (auto simp add: strip_eq_Nil_iff list_all_iff)

text \<open>
  \<open>split\<close> cuts at every separator and nowhere else: joining the pieces with the
  separator gives the string back, and no piece has the separator in it.
\<close>

lemma split_char_nonempty: "split_char sep s \<noteq> []"
  by (induction s) (auto split: list.splits)

lemma join_Cons: "ps \<noteq> [] \<Longrightarrow> join sep (p # ps) = p @ sep @ join sep ps"
  by (cases ps) simp_all

lemma split_char_join: "join [sep] (split_char sep s) = s"
proof (induction s)
  case Nil
  then show ?case by simp
next
  case (Cons c s)
  show ?case
  proof (cases "c = sep")
    case True
    then show ?thesis using Cons.IH by (simp add: join_Cons split_char_nonempty)
  next
    case False
    obtain p ps where ps: "split_char sep s = p # ps"
      using split_char_nonempty [of sep s] by (cases "split_char sep s") auto
    then have "join [sep] ((c # p) # ps) = c # join [sep] (p # ps)"
      by (cases ps) simp_all
    then show ?thesis using False ps Cons.IH by simp
  qed
qed

lemma split_char_no_separator: "list_all (\<lambda>p. sep \<notin> set p) (split_char sep s)"
  by (induction s) (auto split: list.splits)

section \<open>Properties of the memory store\<close>

subsection \<open>Storage keys\<close>

lemma safe_char_underscore: "safe_char 95"
  by (simp add: safe_char_def)

lemma safe_anonymous: "list_all safe_char (asc ''anonymous'')"
  by (simp add: asc_def safe_char_def)

lemma sanitize_safe: "list_all safe_char (sanitize_user_id u)"
proof (cases "u = []")
  case True
  then show ?thesis by (simp add: sanitize_user_id_def safe_anonymous)
next
  case False
  then show ?thesis
    by (auto simp add: sanitize_user_id_def Let_def list_all_iff safe_char_underscore)
qed

lemma sanitize_nonempty_eq:
  "u \<noteq> [] \<Longrightarrow> sanitize_user_id u = map (\<lambda>c. if safe_char c then c else 95) u"
  by (simp add: sanitize_user_id_def Let_def)

lemma map_all_unsafe:
  "list_all (\<lambda>c. \<not> safe_char c) u \<Longrightarrow>
   map (\<lambda>c. if safe_char c then c else 95) u = replicate (length u) 95"
  by (induction u) simp_all

lemma map_safe_eq:
  "map (\<lambda>c. if safe_char c then c else 95) u = v \<Longrightarrow> 95 \<notin> set v \<Longrightarrow> u = v"
  by (induction u arbitrary: v) (auto split: if_splits)

lemma sanitize_anonymous_iff:
  "sanitize_user_id u = asc ''anonymous'' \<longleftrightarrow> u = [] \<or> u = asc ''anonymous''"
proof (cases "u = []")
  case True
  then show ?thesis by (simp add: sanitize_user_id_def)
next
  case False
  have n: "95 \<notin> set (asc ''anonymous'')" by (simp add: asc_def)
  have s: "map (\<lambda>c. if safe_char c then c else 95) (asc ''anonymous'') = asc ''anonymous''"
    by (simp add: asc_def safe_char_def)
  show ?thesis
  proof
    assume "sanitize_user_id u = asc ''anonymous''"
    then have "map (\<lambda>c. if safe_char c then c else 95) u = asc ''anonymous''"
      using False by (simp add: sanitize_nonempty_eq)
    then have "u = asc ''anonymous''" using n by (rule map_safe_eq)
    then show "u = [] \<or> u = asc ''anonymous''" by simp
  next
    assume "u = [] \<or> u = asc ''anonymous''"
    then have u: "u = asc ''anonymous''" using False by simp
    have "sanitize_user_id u = map (\<lambda>c. if safe_char c then c else 95) u"
      using False by (rule sanitize_nonempty_eq)
    then show "sanitize_user_id u = asc ''anonymous''"
      using s by (simp only: u)
  qed
qed

text \<open>
  C3, as the code has it. The key of every identity consists of characters of
  \<open>[A-Za-z0-9_.-]\<close> only. The fallback \<open>anonymous\<close> is the key of the empty identity and
  of the identity \<open>anonymous\<close> itself, and of no other identity. A non-empty identity
  keeps its length, each safe character where it was and an underscore for each other
  one, so that a non-empty identity of unsafe characters only maps to as many
  underscores, not to the fallback.
\<close>

theorem sanitize_user_id_key:
  "list_all safe_char (sanitize_user_id u)
   \<and> (sanitize_user_id u = asc ''anonymous'') = (u = [] \<or> u = asc ''anonymous'')
   \<and> (u \<noteq> [] \<longrightarrow> length (sanitize_user_id u) = length u
         \<and> (\<forall>i<length u. sanitize_user_id u ! i = (if safe_char (u ! i) then u ! i else 95)))
   \<and> (u \<noteq> [] \<and> list_all (\<lambda>c. \<not> safe_char c) u \<longrightarrow>
         sanitize_user_id u = replicate (length u) 95)"
proof (intro conjI impI)
  show "list_all safe_char (sanitize_user_id u)" by (rule sanitize_safe)
  show "(sanitize_user_id u = asc ''anonymous'') = (u = [] \<or> u = asc ''anonymous'')"
    by (rule sanitize_anonymous_iff)
  show "length (sanitize_user_id u) = length u" if "u \<noteq> []"
    using that by (simp add: sanitize_nonempty_eq)
  show "\<forall>i<length u. sanitize_user_id u ! i = (if safe_char (u ! i) then u ! i else 95)"
    if "u \<noteq> []"
    using that by (simp add: sanitize_nonempty_eq)
  show "sanitize_user_id u = replicate (length u) 95"
    if "u \<noteq> [] \<and> list_all (\<lambda>c. \<not> safe_char c) u"
    using that by (simp add: sanitize_nonempty_eq map_all_unsafe)
qed

text \<open>
  The theorem at the empty identity, at \<open>"/ /"\<close>, three unsafe characters, and at the
  identity \<open>"anonymous"\<close>.
\<close>

theorem sanitize_user_id_key_witness:
  "sanitize_user_id [] = asc ''anonymous'' \<and> sanitize_user_id (asc ''/ /'') = asc ''___''
   \<and> sanitize_user_id (asc ''anonymous'') = asc ''anonymous''"
  using sanitize_user_id_key [of "[]"] sanitize_user_id_key [of "asc ''/ /''"]
        sanitize_user_id_key [of "asc ''anonymous''"]
  by (simp add: asc_def safe_char_def)

text \<open>
  C3 as it is stated fails: the identity \<open>"/"\<close> consists of an unsafe character only, and
  its key is \<open>"_"\<close>, not \<open>"anonymous"\<close>.
\<close>

theorem sanitize_all_unsafe_counterexample:
  "\<not> safe_char 47 \<and> sanitize_user_id [47] = [95] \<and> sanitize_user_id [47] \<noteq> asc ''anonymous''"
  by (simp add: asc_def safe_char_def sanitize_user_id_def)

subsection \<open>Saving and loading\<close>

lemma metadata_values_map: "metadata_values (map (\<lambda>(k, v). (k, JString v)) md) = Inr md"
  by (induction md) auto

lemma load_item_to_json: "load_item now (to_json r) = Inr r"
  by (cases "metadata r")
     (simp_all add: to_json_def get_str_def get_metadata_def asc_def metadata_values_map)

lemma load_items_to_json: "load_items clock k (map to_json h) = Inr h"
  by (induction h arbitrary: k) (simp_all add: load_item_to_json)

lemma load_payload:
  "dir (memory_file user_id) = Some (Parsed (payload other h now)) \<Longrightarrow>
   load_history dir clock user_id = Inr h"
  by (simp add: load_history_def payload_def asc_def load_items_to_json)


lemma save_history_returns:
  "encodable user_id \<and> list_all record_encodable h \<and> encodable now \<Longrightarrow>
   save_history dir now user_id h =
     Inr (dir(memory_file user_id \<mapsto> Parsed (payload user_id h now)))"
  by (simp add: save_history_def)


lemma save_history_Inr:
  "save_history dir now user_id h = Inr dir' \<Longrightarrow>
   dir' = dir(memory_file user_id \<mapsto> Parsed (payload user_id h now))
   \<and> encodable user_id \<and> list_all record_encodable h \<and> encodable now"
  by (auto simp add: save_history_def split: if_splits)

lemma load_save_roundtrip:
  "save_history dir now user_id h = Inr dir' \<Longrightarrow> load_history dir' clock user_id = Inr h"
  by (auto dest!: save_history_Inr intro: load_payload)



text \<open>The definitions that decide whether a literal can be encoded.\<close>

lemmas encodable_eval = encodable_def record_encodable_def is_surrogate_def



section \<open>Properties of the persona transformer\<close>

lemma sentences_stripped: "f \<in> set (sentences t) \<Longrightarrow> strip f = f"
  by (auto simp add: sentences_def strip_strip)

lemma piensa_nonempty: "asc '' piensa que '' \<noteq> []"
  by (simp add: asc_def)

lemma decorate_sentence_nonempty: "strip f \<noteq> [] \<Longrightarrow> decorate_sentence U p f \<noteq> []"
  by (simp add: decorate_sentence_def Let_def piensa_nonempty)

lemma decorate_sentence_mark:
  "strip f \<noteq> [] \<Longrightarrow> last (decorate_sentence U p f) = 33 \<or> last (decorate_sentence U p f) = 63"
  by (simp add: decorate_sentence_def Let_def)

lemma last_tl: "length f > 1 \<Longrightarrow> last (tl f) = last f"
  by (cases f) auto

lemma single: "f \<noteq> [] \<Longrightarrow> \<not> length f > 1 \<Longrightarrow> f = [hd f]"
  by (cases f) auto

lemma decorate_sentence_fragment:
  assumes f: "f \<noteq> []" "strip f = f" and U: "keeps_marks U"
  shows "decorate_sentence U p f =
           (let s = (if referential_third_person p \<and> \<not> prefix (lower U (name p)) (lower U f)
                     then name p @ asc '' piensa que '' @ lower U [hd f] @ tl f else f)
            in if last f = 33 \<or> last f = 63 then s else s @ [33])"
proof (cases "referential_third_person p \<and> \<not> prefix (lower U (name p)) (lower U f)")
  case False
  then show ?thesis using f by (auto simp add: decorate_sentence_def Let_def)
next
  case True
  show ?thesis
  proof (cases "length f > 1")
    case long: True
    then have "tl f \<noteq> []" by (cases f) auto
    then have "last (name p @ asc '' piensa que '' @ lower U [hd f] @ tl f) = last f"
      using long by (simp add: last_tl)
    then show ?thesis using f True long by (simp add: decorate_sentence_def Let_def)
  next
    case short: False
    then have e: "f = [hd f]" using f by (simp add: single)
    have m: "(lower U [hd f] \<noteq> [] \<and> (last (lower U [hd f]) = 33 \<or> last (lower U [hd f]) = 63))
          = (hd f = 33 \<or> hd f = 63)"
      using U by (simp add: keeps_marks_def)
    have l: "last f = hd f" using e by (metis last.simps)
    have sp: "last (asc '' piensa que '') = 32" by (simp add: asc_def)
    have ne: "asc '' piensa que '' \<noteq> []" by (simp add: asc_def)
    have "(last (name p @ asc '' piensa que '' @ lower U f) = 33 \<or>
           last (name p @ asc '' piensa que '' @ lower U f) = 63) = (last f = 33 \<or> last f = 63)"
    proof (cases "lower U [hd f] = []")
      case True
      then have "lower U f = []" using e by simp
      then show ?thesis using m True l sp ne by simp
    next
      case False
      then have "lower U f \<noteq> []" using e by simp
      then have "last (name p @ asc '' piensa que '' @ lower U f) = last (lower U [hd f])"
        using e by simp
      then show ?thesis using m False l by simp
    qed
    moreover have "lower U [hd f] @ tl f = lower U f" using e by (metis append_Nil2 list.sel(3))
    ultimately show ?thesis using f True short by (auto simp add: decorate_sentence_def Let_def)
  qed
qed

lemma join_set: "d \<in> set ds \<Longrightarrow> set d \<subseteq> set (join sep ds)"
  by (induction sep ds rule: join.induct) auto

lemma stylize_unfold:
  assumes "strip text \<noteq> []" "closing_emotes p \<noteq> []"
  shows "stylize U p tags text =
     (let fragments = filter (\<lambda>f. f \<noteq> []) (sentences (strip text));
          decorated = (if fragments = [] then [no_words]
                       else map (decorate_sentence U p) fragments)
      in Inr (join [32] decorated @ awareness tags @ [32] @
              closing_emotes p ! (length decorated mod length (closing_emotes p))))"
  using assms by (simp add: stylize_def Let_def)

text \<open>
  C7. For a text that is not white space only, a persona with at least one emote and
  Unicode tables that keep the marks. The stripped text, with every newline replaced by
  a space, is split at its periods: the pieces joined by periods give that text back, and
  no piece has a period in it. The fragments are the stripped pieces that are not empty.
  Each fragment gets the prefix \<open>{name} piensa que\<close> and a lower-cased first character
  when the rewriting is on and the lower-cased fragment does not start with the
  lower-cased name, and a final \<open>!\<close> when it does not end in \<open>!\<close> or \<open>?\<close>. The result is
  the decorated fragments joined by spaces, the awareness clause (left out for a command
  answer), a space and the emote whose index is the number of decorated fragments modulo
  the number of emotes; when no fragment is left, the one decorated fragment is the
  fixed sentence \<open>no_words\<close>.
\<close>

theorem stylize_fragments:
  assumes "strip text \<noteq> []" and "closing_emotes p \<noteq> []" and "keeps_marks U"
  shows "(let replaced = map (\<lambda>c. if c = 10 then 32 else c) (strip text);
              pieces = split_char 46 replaced;
              fragments = filter (\<lambda>f. f \<noteq> []) (map strip pieces);
              decorated =
                (if fragments = [] then [no_words]
                 else map (\<lambda>f. let s = (if referential_third_person p \<and>
                                             \<not> prefix (lower U (name p)) (lower U f)
                                          then name p @ asc '' piensa que '' @ lower U [hd f] @ tl f
                                          else f)
                                 in if last f = 33 \<or> last f = 63 then s else s @ [33])
                          fragments)
          in join [46] pieces = replaced
             \<and> list_all (\<lambda>piece. 46 \<notin> set piece) pieces
             \<and> stylize U p tags text =
                 Inr (join [32] decorated @ awareness tags @ [32] @
                      closing_emotes p ! (length decorated mod length (closing_emotes p))))"
proof -
  let ?replaced = "map (\<lambda>c. if c = 10 then 32 else c) (strip text)"
  let ?pieces = "split_char 46 ?replaced"
  let ?fragments = "filter (\<lambda>f. f \<noteq> []) (map strip ?pieces)"
  let ?spec = "\<lambda>f. let s = (if referential_third_person p \<and>
                              \<not> prefix (lower U (name p)) (lower U f)
                           then name p @ asc '' piensa que '' @ lower U [hd f] @ tl f
                           else f)
                  in if last f = 33 \<or> last f = 63 then s else s @ [33]"
  have fr: "filter (\<lambda>f. f \<noteq> []) (sentences (strip text)) = ?fragments"
    by (simp add: sentences_def)
  have eq: "map (decorate_sentence U p) ?fragments = map ?spec ?fragments"
  proof (rule map_cong [OF refl])
    fix f assume "f \<in> set ?fragments"
    then have "f \<noteq> []" "strip f = f" by (auto simp add: strip_strip)
    then show "decorate_sentence U p f = ?spec f"
      using assms(3) by (rule decorate_sentence_fragment)
  qed
  have "stylize U p tags text =
     (let fragments = filter (\<lambda>f. f \<noteq> []) (sentences (strip text));
          decorated = (if fragments = [] then [no_words]
                       else map (decorate_sentence U p) fragments)
      in Inr (join [32] decorated @ awareness tags @ [32] @
              closing_emotes p ! (length decorated mod length (closing_emotes p))))"
    using assms(1,2) by (rule stylize_unfold)
  then have st: "stylize U p tags text =
     (let fragments = ?fragments;
          decorated = (if fragments = [] then [no_words] else map ?spec fragments)
      in Inr (join [32] decorated @ awareness tags @ [32] @
              closing_emotes p ! (length decorated mod length (closing_emotes p))))"
    unfolding fr Let_def eq [unfolded Let_def] .
  have j: "join [46] ?pieces = ?replaced" by (rule split_char_join)
  have n: "list_all (\<lambda>piece. 46 \<notin> set piece) ?pieces" by (rule split_char_no_separator)
  from j n st show ?thesis unfolding Let_def by (intro conjI)
qed

text \<open>When \<open>stylize\<close> raises: on a text that is not blank, for a persona without emotes.\<close>

lemma stylize_blank: "strip text = [] \<Longrightarrow> stylize U p tags text = Inr confused"
  by (simp add: stylize_def)

lemma stylize_without_emotes:
  "strip text \<noteq> [] \<Longrightarrow> closing_emotes p = [] \<Longrightarrow>
   stylize U p tags text = Inl ZeroDivisionError"
  by (simp add: stylize_def Let_def)

lemma stylize_raises:
  "stylize U p tags text = Inl e \<Longrightarrow>
   e = ZeroDivisionError \<and> closing_emotes p = [] \<and> strip text \<noteq> []"
  by (auto simp add: stylize_def Let_def split: if_splits)

lemma keeps_marks_ascii: "keeps_marks ascii_tables"
  by (simp add: keeps_marks_def ascii_tables_def ascii_lower_def)

lemma no_words_mark: "no_words \<noteq> [] \<and> (last no_words = 33 \<or> last no_words = 63)"
  by (simp add: no_words_def asc_def)

lemma stylize_shape:
  assumes "strip text \<noteq> []" "closing_emotes p \<noteq> []"
  shows "\<exists>decorated.
           stylize U p tags text =
             Inr (join [32] decorated @ awareness tags @ [32] @
                  closing_emotes p ! (length decorated mod length (closing_emotes p)))
           \<and> decorated \<noteq> []
           \<and> list_all (\<lambda>d. d \<noteq> [] \<and> (last d = 33 \<or> last d = 63)) decorated"
proof -
  let ?fragments = "filter (\<lambda>f. f \<noteq> []) (sentences (strip text))"
  let ?decorated = "if ?fragments = [] then [no_words] else map (decorate_sentence U p) ?fragments"
  have s: "stylize U p tags text =
          Inr (join [32] ?decorated @ awareness tags @ [32] @
               closing_emotes p ! (length ?decorated mod length (closing_emotes p)))"
    unfolding stylize_unfold [OF assms] Let_def by simp
  have n: "?decorated \<noteq> []" by simp
  have "\<And>f. f \<in> set ?fragments \<Longrightarrow> strip f \<noteq> []"
    by (auto simp add: sentences_stripped)
  then have m: "list_all (\<lambda>d. d \<noteq> [] \<and> (last d = 33 \<or> last d = 63)) ?decorated"
    using no_words_mark
    by (auto simp add: list_all_iff decorate_sentence_nonempty decorate_sentence_mark
             simp del: set_filter)
  from s n m show ?thesis by blast
qed

lemma not_isspace_marks: "\<not> isspace 33" "\<not> isspace 63" "\<not> isspace 161"
  by (simp_all add: isspace_def)

lemma confused_nonblank: "strip confused \<noteq> []"
  by (rule strip_nonblank [of 161]) (simp_all add: confused_def not_isspace_marks)

lemma styled_nonblank:
  assumes "stylize U p tags text = Inr styled"
  shows "strip styled \<noteq> []"
proof (cases "strip text = []")
  case True
  then have "styled = confused" using assms by (simp add: stylize_def)
  then show ?thesis by (simp add: confused_nonblank)
next
  case False
  have e: "closing_emotes p \<noteq> []" using assms False by (auto simp add: stylize_def Let_def)
  from stylize_shape [OF False e, of U tags] obtain decorated where
    d: "styled = join [32] decorated @ awareness tags @ [32] @
                  closing_emotes p ! (length decorated mod length (closing_emotes p))"
       "decorated \<noteq> []"
       "list_all (\<lambda>d. d \<noteq> [] \<and> (last d = 33 \<or> last d = 63)) decorated"
    using assms by auto
  then obtain d0 where d0: "d0 \<in> set decorated" "d0 \<noteq> []" "last d0 = 33 \<or> last d0 = 63"
    by (cases decorated) auto
  then have "last d0 \<in> set d0" by simp
  then have "last d0 \<in> set styled" using join_set [OF d0(1), of "[32]"] d(1) by auto
  moreover have "\<not> isspace (last d0)" using d0(3) not_isspace_marks by auto
  ultimately show ?thesis by (rule strip_nonblank)
qed

text \<open>
  C8, as the code has it. For every output \<open>styled\<close> of \<open>stylize\<close> and a persona with at
  least one emote, \<open>stylize\<close> returns on \<open>styled\<close>, and what it returns is a non-empty
  sequence of decorated fragments, each of them non-empty and ending in \<open>!\<close> or \<open>?\<close>,
  joined by spaces and followed by the awareness clause (left out for a command answer),
  a space and an emote. The result itself therefore ends in the emote.
\<close>

theorem stylize_twice:
  assumes "stylize U p tags text = Inr styled" and "closing_emotes p \<noteq> []"
  shows "\<exists>decorated.
           stylize U p tags' styled =
             Inr (join [32] decorated @ awareness tags' @ [32] @
                  closing_emotes p ! (length decorated mod length (closing_emotes p)))
           \<and> decorated \<noteq> []
           \<and> list_all (\<lambda>d. d \<noteq> [] \<and> (last d = 33 \<or> last d = 63)) decorated"
  using styled_nonblank [OF assms(1)] assms(2) by (rule stylize_shape)

text \<open>The definitions that evaluate the string operations on a literal.\<close>

lemmas string_eval =
  asc_def strip_def isspace_def sentences_def awareness_def awareness_clause_def
  ascii_tables_def ascii_lower_def default_persona_def no_words_def confused_def

text \<open>
  The theorem at a text of two lines, \<open>"Hola\nmundo. Que tal?\n"\<close>: the newline inside
  the first fragment has become a space, and the two fragments select the third emote.
\<close>

theorem stylize_fragments_witness:
  "stylize ascii_tables default_persona None
     (asc ''Hola'' @ [10] @ asc ''mundo. Que tal?'' @ [10]) =
     Inr (asc ''Paimon piensa que hola mundo! Paimon piensa que que tal?''
          @ awareness_clause @ [32, 9834])"
proof -
  have a: "strip (asc ''Hola'' @ [10] @ asc ''mundo. Que tal?'' @ [10]) \<noteq> []"
    by (simp add: string_eval)
  have b: "closing_emotes default_persona \<noteq> []" by (simp add: default_persona_def)
  from stylize_fragments [OF a b keeps_marks_ascii, of None]
  show ?thesis by (simp add: string_eval)
qed

lemma stylize_hola:
  "stylize ascii_tables default_persona None (asc ''Hola'') =
     Inr (asc ''Paimon piensa que hola!'' @ awareness_clause @ [32, 10024])"
  by (simp add: stylize_def decorate_sentence_def Let_def string_eval)

text \<open>
  C8 as it is stated fails for the default persona: \<open>stylize("Hola")\<close> ends in the emote
  U+2728, and styling that output again gives a text that ends in the emote U+266A
  (code point 9834), neither \<open>!\<close> nor \<open>?\<close>.
\<close>

theorem stylize_twice_counterexample:
  "stylize ascii_tables default_persona None (asc ''Hola'') =
     Inr (asc ''Paimon piensa que hola!'' @ awareness_clause @ [32, 10024])
   \<and> stylize ascii_tables default_persona None
        (asc ''Paimon piensa que hola!'' @ awareness_clause @ [32, 10024]) =
     Inr (asc ''Paimon piensa que hola! Paimon recuerda que es una bot gu'' @ [237] @ asc ''a!''
          @ asc '' Paimon piensa que '' @ [10024] @ asc ''!'' @ awareness_clause @ [32, 9834])
   \<and> last (asc ''Paimon piensa que hola! Paimon recuerda que es una bot gu'' @ [237] @ asc ''a!''
          @ asc '' Paimon piensa que '' @ [10024] @ asc ''!'' @ awareness_clause @ [32, 9834]) \<noteq> 33
   \<and> last (asc ''Paimon piensa que hola! Paimon recuerda que es una bot gu'' @ [237] @ asc ''a!''
          @ asc '' Paimon piensa que '' @ [10024] @ asc ''!'' @ awareness_clause @ [32, 9834]) \<noteq> 63"
  by (simp add: stylize_def decorate_sentence_def Let_def string_eval)

text \<open>The theorem at the output of \<open>stylize("Hola")\<close>.\<close>

theorem stylize_twice_witness:
  "\<exists>decorated.
     stylize ascii_tables default_persona None
       (asc ''Paimon piensa que hola!'' @ awareness_clause @ [32, 10024]) =
       Inr (join [32] decorated @ awareness None @ [32] @
            closing_emotes default_persona !
              (length decorated mod length (closing_emotes default_persona)))
     \<and> decorated \<noteq> []
     \<and> list_all (\<lambda>d. d \<noteq> [] \<and> (last d = 33 \<or> last d = 63)) decorated"
proof -
  have b: "closing_emotes default_persona \<noteq> []" by (simp add: default_persona_def)
  show ?thesis by (rule stylize_twice [OF stylize_hola b])
qed

section \<open>Properties of the command reference\<close>

lemma contains_sublist: "contains s sub \<longleftrightarrow> sublist sub s"
  by (induction s) (simp_all add: sublist_Cons_right)

lemma load_documents_distinct:
  "distinct (map fst documents) \<Longrightarrow> distinct (map fst (load_documents U files documents))"
  unfolding load_documents_def
  by (induction files arbitrary: documents) (simp_all add: Let_def distinct_update)

lemma CommandDocumentation_init_distinct:
  "distinct (map fst (CommandDocumentation_init U docs_directory))"
  by (cases docs_directory) (simp_all add: CommandDocumentation_init_def load_documents_distinct)

lemma first_related_none:
  "(\<forall>key \<in> set (map fst documents). \<not> (sublist key q \<or> sublist q key)) \<Longrightarrow>
   first_related q documents = None"
  by (induction documents) (auto simp add: contains_sublist)

lemma first_related_index:
  "i < length documents \<Longrightarrow>
   sublist (fst (documents ! i)) q \<or> sublist q (fst (documents ! i)) \<Longrightarrow>
   (\<forall>j<i. \<not> (sublist (fst (documents ! j)) q \<or> sublist q (fst (documents ! j)))) \<Longrightarrow>
   first_related q documents = Some (snd (documents ! i))"
proof (induction documents arbitrary: i)
  case Nil
  then show ?case by simp
next
  case (Cons kd documents)
  obtain key document where kd: "kd = (key, document)" by (cases kd)
  show ?case
  proof (cases i)
    case 0
    then show ?thesis using Cons.prems kd by (auto simp add: contains_sublist)
  next
    case (Suc i')
    have "\<not> (sublist key q \<or> sublist q key)"
      using Cons.prems(3) Suc kd by (metis fst_conv nth_Cons_0 zero_less_Suc)
    moreover have "first_related q documents = Some (snd (documents ! i'))"
    proof (rule Cons.IH)
      show "i' < length documents" using Cons.prems(1) Suc by simp
      show "sublist (fst (documents ! i')) q \<or> sublist q (fst (documents ! i'))"
        using Cons.prems(2) Suc by simp
      show "\<forall>j<i'. \<not> (sublist (fst (documents ! j)) q \<or> sublist q (fst (documents ! j)))"
      proof (intro allI impI)
        fix j assume "j < i'"
        then have "Suc j < i" using Suc by simp
        then show "\<not> (sublist (fst (documents ! j)) q \<or> sublist q (fst (documents ! j)))"
          using Cons.prems(3) by (metis nth_Cons_Suc)
      qed
    qed
    ultimately show ?thesis using Suc kd by (simp add: contains_sublist)
  qed
qed

text \<open>
  C6. With \<open>q\<close> the lower-cased query: when a document stands under the key \<open>q\<close>,
  \<open>find_best_match\<close> returns it. When \<open>q\<close> is no key, and the key at position \<open>i\<close> of
  the iteration order is a substring of \<open>q\<close> or has \<open>q\<close> as a substring, and no key at
  an earlier position is related to \<open>q\<close> in either way, it returns the document at
  position \<open>i\<close>. When no key is related to \<open>q\<close> in either way, it returns no document.
  (A substring is a contiguous run, \<open>sublist\<close>; the keys of a loaded reference are
  distinct, lemma \<open>CommandDocumentation_init_distinct\<close>.)
\<close>

theorem find_best_match_first:
  "(map_of documents (lower U query) = Some document \<longrightarrow>
      find_best_match U documents query = Some document)
   \<and> (lower U query \<notin> set (map fst documents) \<and> i < length documents
        \<and> (sublist (fst (documents ! i)) (lower U query)
             \<or> sublist (lower U query) (fst (documents ! i)))
        \<and> (\<forall>j<i. \<not> (sublist (fst (documents ! j)) (lower U query)
                       \<or> sublist (lower U query) (fst (documents ! j)))) \<longrightarrow>
      find_best_match U documents query = Some (snd (documents ! i)))
   \<and> ((\<forall>key \<in> set (map fst documents).
          \<not> (sublist key (lower U query) \<or> sublist (lower U query) key)) \<longrightarrow>
      find_best_match U documents query = None)"
proof (intro conjI impI)
  assume "map_of documents (lower U query) = Some document"
  moreover from this have "lower U query \<in> set (map fst documents)"
    by (metis map_of_eq_None_iff option.distinct(1) set_map)
  ultimately show "find_best_match U documents query = Some document"
    by (simp add: find_best_match_def Let_def)
next
  assume a: "lower U query \<notin> set (map fst documents) \<and> i < length documents
        \<and> (sublist (fst (documents ! i)) (lower U query)
             \<or> sublist (lower U query) (fst (documents ! i)))
        \<and> (\<forall>j<i. \<not> (sublist (fst (documents ! j)) (lower U query)
                       \<or> sublist (lower U query) (fst (documents ! j))))"
  then have "first_related (lower U query) documents = Some (snd (documents ! i))"
    by (intro first_related_index) blast+
  then show "find_best_match U documents query = Some (snd (documents ! i))"
    using a by (simp add: find_best_match_def Let_def)
next
  assume a: "\<forall>key \<in> set (map fst documents).
          \<not> (sublist key (lower U query) \<or> sublist (lower U query) key)"
  then have "lower U query \<notin> set (map fst documents)"
    by (metis sublist_order.order_refl)
  moreover have "first_related (lower U query) documents = None"
    using a by (rule first_related_none)
  ultimately show "find_best_match U documents query = None"
    by (simp add: find_best_match_def Let_def)
qed

lemma example_docs_eq:
  "example_docs = [(asc ''jump'', jump_document), (asc ''spawn'', spawn_document)]"
  by (simp add: example_docs_def CommandDocumentation_init_def load_documents_def
        example_files_def jump_document_def spawn_document_def Let_def string_eval)

text \<open>
  The theorem on the example reference: an exact key in capitals, a query that contains
  the second key, and a query related to no key.
\<close>

theorem find_best_match_first_witness:
  "find_best_match ascii_tables example_docs (asc ''JUMP'') = Some jump_document
   \<and> find_best_match ascii_tables example_docs (asc ''respawn'') = Some spawn_document
   \<and> find_best_match ascii_tables example_docs (asc ''xyz'') = None"
proof -
  have a: "map_of example_docs (lower ascii_tables (asc ''JUMP'')) = Some jump_document"
    by (simp add: example_docs_eq string_eval)
  have b: "lower ascii_tables (asc ''respawn'') \<notin> set (map fst example_docs)
        \<and> Suc 0 < length example_docs
        \<and> (sublist (fst (example_docs ! Suc 0)) (lower ascii_tables (asc ''respawn''))
             \<or> sublist (lower ascii_tables (asc ''respawn'')) (fst (example_docs ! Suc 0)))
        \<and> (\<forall>j<Suc 0. \<not> (sublist (fst (example_docs ! j)) (lower ascii_tables (asc ''respawn''))
                       \<or> sublist (lower ascii_tables (asc ''respawn'')) (fst (example_docs ! j))))"
    by (simp add: example_docs_eq string_eval contains_sublist [symmetric])
  have c: "\<forall>key \<in> set (map fst example_docs).
          \<not> (sublist key (lower ascii_tables (asc ''xyz''))
             \<or> sublist (lower ascii_tables (asc ''xyz'')) key)"
    by (simp add: example_docs_eq string_eval contains_sublist [symmetric])
  from a b c
    find_best_match_first [of example_docs ascii_tables "asc ''JUMP''" jump_document 0]
    find_best_match_first [of example_docs ascii_tables "asc ''respawn''" jump_document "Suc 0"]
    find_best_match_first [of example_docs ascii_tables "asc ''xyz''" jump_document 0]
  show ?thesis
    by (simp add: example_docs_eq)
qed

section \<open>Properties of the command pattern\<close>

lemma match_word_sound:
  "match_word w s = Some r \<Longrightarrow> \<exists>word. s = word @ r \<and> list_all2 ci_eq w word"
proof (induction w s rule: match_word.induct)
  case (1 s)
  then show ?case by simp
next
  case (2 l ls)
  then show ?case by simp
next
  case (3 l ls c cs)
  then have c: "ci_eq l c" and m: "match_word ls cs = Some r" by (auto split: if_splits)
  from "3.IH" [OF c m] obtain word where "cs = word @ r" "list_all2 ci_eq ls word" by blast
  then have "c # cs = (c # word) @ r \<and> list_all2 ci_eq (l # ls) (c # word)" using c by simp
  then show ?case by blast
qed

lemma match_word_complete:
  "list_all2 ci_eq w word \<Longrightarrow> match_word w (word @ r) = Some r"
  by (induction w word rule: list_all2_induct) simp_all

lemma match_name_sound:
  assumes "match_name U s = Some c"
  shows "\<exists>rest. s = c @ rest \<and> c \<noteq> [] \<and> list_all (is_name_char U) c
               \<and> (rest = [] \<or> \<not> is_name_char U (hd rest))"
proof -
  from assms have c: "c = takeWhile (is_name_char U) s" "c \<noteq> []"
    by (auto simp add: match_name_def Let_def split: if_splits)
  let ?rest = "dropWhile (is_name_char U) s"
  have "s = c @ ?rest" using c by simp
  moreover have "list_all (is_name_char U) c" using c by (auto simp add: list_all_iff dest: set_takeWhileD)
  moreover have "?rest = [] \<or> \<not> is_name_char U (hd ?rest)" using hd_dropWhile by blast
  ultimately show ?thesis using c by blast
qed

lemma match_name_complete:
  "c \<noteq> [] \<Longrightarrow> is_name_char U (hd c) \<Longrightarrow> match_name U (c @ rest) \<noteq> None"
  by (cases c) (simp_all add: match_name_def Let_def)

lemma match_separators_sound:
  "match_separators U k s = Some c \<Longrightarrow>
   \<exists>j. 1 \<le> j \<and> j \<le> k \<and> match_name U (drop j s) = Some c"
proof (induction k)
  case 0
  then show ?case by simp
next
  case (Suc k)
  show ?case
  proof (cases "match_name U (drop (Suc k) s)")
    case None
    then have "match_separators U k s = Some c" using Suc.prems by simp
    from Suc.IH [OF this] show ?thesis by (metis le_Suc_eq)
  next
    case (Some c')
    then have "c' = c" using Suc.prems by simp
    then show ?thesis using Some by (metis One_nat_def Suc_le_mono le0 order_refl)
  qed
qed

lemma match_separators_complete:
  "1 \<le> j \<Longrightarrow> j \<le> k \<Longrightarrow> match_name U (drop j s) \<noteq> None \<Longrightarrow>
   match_separators U k s \<noteq> None"
proof (induction k)
  case 0
  then show ?case by simp
next
  case (Suc k)
  show ?case
  proof (cases "match_name U (drop (Suc k) s)")
    case (Some c')
    then show ?thesis by simp
  next
    case None
    then have "j \<noteq> Suc k" using Suc.prems(3) by auto
    then have "j \<le> k" using Suc.prems(2) by simp
    then have "match_separators U k s \<noteq> None" using Suc.IH Suc.prems by simp
    then show ?thesis using None by simp
  qed
qed

lemma match_tail_sound:
  assumes "match_tail U s = Some c"
  shows "\<exists>separators rest. s = separators @ c @ rest
           \<and> separators \<noteq> [] \<and> list_all is_separator separators
           \<and> c \<noteq> [] \<and> list_all (is_name_char U) c
           \<and> (rest = [] \<or> \<not> is_name_char U (hd rest))"
proof -
  let ?n = "length (takeWhile is_separator s)"
  from assms obtain j where j: "1 \<le> j" "j \<le> ?n" "match_name U (drop j s) = Some c"
    unfolding match_tail_def by (blast dest: match_separators_sound)
  from match_name_sound [OF j(3)] obtain rest where
    r: "drop j s = c @ rest" "c \<noteq> []" "list_all (is_name_char U) c"
       "rest = [] \<or> \<not> is_name_char U (hd rest)" by blast
  have "take j s = take j (takeWhile is_separator s)"
    using j(2) by (metis append_eq_conv_conj takeWhile_dropWhile_id take_all_iff take_append
                       diff_is_0_eq' take_0 append_Nil2 le_refl)
  then have "set (take j s) \<subseteq> set (takeWhile is_separator s)" by (metis set_take_subset)
  then have sep: "list_all is_separator (take j s)"
    by (auto simp add: list_all_iff dest: set_takeWhileD)
  have "j \<le> length s" using j(2) length_takeWhile_le [of is_separator s] by simp
  then have ne: "take j s \<noteq> []" using j(1) by auto
  have "s = take j s @ c @ rest" using r(1) by (metis append_take_drop_id)
  with sep ne r show ?thesis by blast
qed

lemma match_tail_complete:
  assumes "separators \<noteq> []" "list_all is_separator separators" "c \<noteq> []" "is_name_char U (hd c)"
  shows "match_tail U (separators @ c @ rest) \<noteq> None"
proof -
  let ?s = "separators @ c @ rest"
  have a: "length separators \<le> length (takeWhile is_separator ?s)"
    using assms(2) by (simp add: list_all_iff takeWhile_append2)
  have b: "1 \<le> length separators" using assms(1) by (cases separators) simp_all
  have c: "match_name U (drop (length separators) ?s) \<noteq> None"
    using assms(3,4) by (simp add: match_name_complete)
  show ?thesis unfolding match_tail_def using b a c by (rule match_separators_complete)
qed

lemma match_command_words_sound:
  "match_command_words U ws s = Some c \<Longrightarrow>
   \<exists>w \<in> set ws. \<exists>r. match_word w s = Some r \<and> match_tail U r = Some c"
  by (induction ws) (auto split: option.splits)

lemma match_command_words_complete:
  "w \<in> set ws \<Longrightarrow> match_word w s = Some r \<Longrightarrow> match_tail U r \<noteq> None \<Longrightarrow>
   match_command_words U ws s \<noteq> None"
  by (induction ws) (auto split: option.splits)

lemma match_here_sound:
  assumes "match_here U s = Some c"
  shows "\<exists>marker t. s = marker @ t \<and> (marker = [] \<or> marker = [33] \<or> marker = [47])
           \<and> match_command_words U command_words t = Some c"
proof (cases "match_command_words U command_words s = Some c")
  case True
  then have "s = [] @ s \<and> match_command_words U command_words s = Some c" by simp
  then show ?thesis by blast
next
  case False
  with assms obtain m t where "s = m # t" "m = 33 \<or> m = 47"
      "match_command_words U command_words t = Some c"
    by (auto simp add: match_here_def split: list.splits option.splits if_splits)
  then have "s = [m] @ t \<and> ([m] = [33] \<or> [m] = [47])
             \<and> match_command_words U command_words t = Some c" by simp
  then show ?thesis by blast
qed

lemma match_here_complete:
  assumes "marker = [] \<or> marker = [33] \<or> marker = [47]"
      and "match_command_words U command_words t \<noteq> None"
  shows "match_here U (marker @ t) \<noteq> None"
  using assms by (auto simp add: match_here_def split: option.splits)

lemma COMMAND_PATTERN_search_sound:
  "COMMAND_PATTERN_search U message = Some c \<Longrightarrow>
   \<exists>before s. message = before @ s \<and> match_here U s = Some c"
proof (induction message)
  case Nil
  then show ?case by simp
next
  case (Cons x message)
  show ?case
  proof (cases "match_here U (x # message)")
    case (Some c')
    then have "x # message = [] @ (x # message) \<and> match_here U (x # message) = Some c"
      using Cons.prems by simp
    then show ?thesis by blast
  next
    case None
    then have "COMMAND_PATTERN_search U message = Some c" using Cons.prems by simp
    from Cons.IH [OF this] obtain before s where
      "message = before @ s" "match_here U s = Some c" by blast
    then have "x # message = (x # before) @ s \<and> match_here U s = Some c" by simp
    then show ?thesis by blast
  qed
qed

lemma COMMAND_PATTERN_search_complete:
  "match_here U s \<noteq> None \<Longrightarrow> COMMAND_PATTERN_search U (before @ s) \<noteq> None"
proof (induction before)
  case Nil
  then show ?case by (cases s) (auto split: option.splits)
next
  case (Cons x before)
  then show ?case by (auto split: option.splits)
qed

lemma pattern_sound:
  assumes "COMMAND_PATTERN_search U message = Some c"
  shows "\<exists>rest. command_pattern_in U message c rest
               \<and> (rest = [] \<or> \<not> is_name_char U (hd rest))"
proof -
  from COMMAND_PATTERN_search_sound [OF assms] obtain before s where
    1: "message = before @ s" "match_here U s = Some c" by blast
  from match_here_sound [OF 1(2)] obtain marker t where
    2: "s = marker @ t" "marker = [] \<or> marker = [33] \<or> marker = [47]"
       "match_command_words U command_words t = Some c" by blast
  from match_command_words_sound [OF 2(3)] obtain w r where
    3: "w \<in> set command_words" "match_word w t = Some r" "match_tail U r = Some c" by blast
  from match_word_sound [OF 3(2)] obtain word where
    4: "t = word @ r" "list_all2 ci_eq w word" by blast
  from match_tail_sound [OF 3(3)] obtain separators rest where
    5: "r = separators @ c @ rest" "separators \<noteq> []" "list_all is_separator separators"
       "c \<noteq> []" "list_all (is_name_char U) c" "rest = [] \<or> \<not> is_name_char U (hd rest)"
    by blast
  have "message = before @ marker @ word @ separators @ c @ rest"
    using 1(1) 2(1) 4(1) 5(1) by simp
  then have "command_pattern_in U message c rest"
    unfolding command_pattern_in_def using 2(2) 3(1) 4(2) 5(2-5) by blast
  then show ?thesis using 5(6) by blast
qed

lemma pattern_complete:
  assumes "command_pattern_in U message c rest"
  shows "COMMAND_PATTERN_search U message \<noteq> None"
proof -
  from assms obtain before marker word separators w where
    m: "message = before @ marker @ word @ separators @ c @ rest"
       "marker = [] \<or> marker = [33] \<or> marker = [47]"
       "w \<in> set command_words" "list_all2 ci_eq w word"
       "separators \<noteq> []" "list_all is_separator separators"
       "c \<noteq> []" "list_all (is_name_char U) c"
    unfolding command_pattern_in_def by blast
  have "is_name_char U (hd c)" using m(7,8) by (cases c) simp_all
  then have t: "match_tail U (separators @ c @ rest) \<noteq> None"
    using m(5,6,7) by (simp add: match_tail_complete)
  have w: "match_word w (word @ separators @ c @ rest) = Some (separators @ c @ rest)"
    using m(4) by (rule match_word_complete)
  have "match_command_words U command_words (word @ separators @ c @ rest) \<noteq> None"
    using m(3) w t by (rule match_command_words_complete)
  with m(2) have "match_here U (marker @ word @ separators @ c @ rest) \<noteq> None"
    by (rule match_here_complete)
  then show ?thesis unfolding m(1) by (rule COMMAND_PATTERN_search_complete)
qed

text \<open>
  C4. When the command pattern matches, the candidate it captures is an identifier that
  stands in the message after an optional marker, a command word and at least one
  separator, and is not followed by a further identifier character; the query resolves
  to the document under the candidate, and to the fuzzy match of the candidate when
  there is none, whatever keys the message contains elsewhere. Only when the search
  finds nothing, in which case the pattern occurs nowhere in the message, is the result
  that of the containment scan over the known keys.
\<close>

theorem resolve_command_query_precedence:
  "(case COMMAND_PATTERN_search U message of
      Some candidate \<Rightarrow>
        (\<exists>rest. command_pattern_in U message candidate rest
                \<and> (rest = [] \<or> \<not> is_name_char U (hd rest)))
        \<and> resolve_command_query U documents message =
            (case get U documents candidate of
               Some document \<Rightarrow> Some document
             | None \<Rightarrow> find_best_match U documents candidate)
    | None \<Rightarrow>
        (\<forall>candidate rest. \<not> command_pattern_in U message candidate rest)
        \<and> resolve_command_query U documents message =
            containment_scan U documents (lower U message) (available_commands documents))"
proof (cases "COMMAND_PATTERN_search U message")
  case None
  then have "\<forall>candidate rest. \<not> command_pattern_in U message candidate rest"
    using pattern_complete by blast
  then show ?thesis using None by (simp add: resolve_command_query_def)
next
  case (Some candidate)
  then show ?thesis using pattern_sound [OF Some] by (simp add: resolve_command_query_def)
qed

text \<open>The definitions that evaluate the pattern on a literal.\<close>

lemmas pattern_eval =
  match_here_def command_words_def match_tail_def match_name_def is_separator_def
  is_name_char_def ci_eq_def ascii_isalnum_def

lemma search_spawn:
  "COMMAND_PATTERN_search ascii_tables (asc ''!comando spawn jump'') = Some (asc ''spawn'')"
  by (simp add: pattern_eval string_eval)

lemma search_plain: "COMMAND_PATTERN_search ascii_tables (asc ''jump alto'') = None"
  by (simp add: pattern_eval string_eval)

text \<open>
  The theorem on the example reference. \<open>"!comando spawn jump"\<close> resolves to the document
  of \<open>spawn\<close>, although the key \<open>jump\<close>, the first in iteration order, is a substring of
  the message and the containment scan would answer with its document;
  \<open>"jump alto"\<close> has no match of the pattern and resolves by the scan.
\<close>

theorem resolve_command_query_precedence_witness:
  "resolve_command_query ascii_tables example_docs (asc ''!comando spawn jump'') = Some spawn_document
   \<and> containment_scan ascii_tables example_docs (lower ascii_tables (asc ''!comando spawn jump''))
        (available_commands example_docs) = Some jump_document
   \<and> resolve_command_query ascii_tables example_docs (asc ''jump alto'') = Some jump_document"
proof -
  have g: "get ascii_tables example_docs (asc ''spawn'') = Some spawn_document"
    by (simp add: get_def example_docs_eq string_eval)
  have a: "resolve_command_query ascii_tables example_docs (asc ''!comando spawn jump'') =
           Some spawn_document"
    using resolve_command_query_precedence
            [of ascii_tables "asc ''!comando spawn jump''" example_docs, unfolded search_spawn]
    by (simp add: g)
  have b: "containment_scan ascii_tables example_docs (lower ascii_tables (asc ''!comando spawn jump''))
             (available_commands example_docs) = Some jump_document"
    by (simp add: get_def available_commands_def example_docs_eq string_eval)
  have c: "containment_scan ascii_tables example_docs (lower ascii_tables (asc ''jump alto''))
             (available_commands example_docs) = Some jump_document"
    by (simp add: get_def available_commands_def example_docs_eq string_eval)
  have d: "resolve_command_query ascii_tables example_docs (asc ''jump alto'') = Some jump_document"
    using resolve_command_query_precedence
            [of ascii_tables "asc ''jump alto''" example_docs, unfolded search_plain]
    by (simp add: c)
  from a b d show ?thesis by simp
qed

section \<open>Properties of the conversation orchestrator\<close>

lemma example_chat_init:
  "PaibotChat_init ascii_tables None (Some example_docs) None (Some example_model) w None None
     example_model = Inr (example_chat w)"
  by (simp add: PaibotChat_init_def example_chat_def default_aliases_def string_eval)

lemma PaibotChat_init_window:
  "PaibotChat_init U persona_arg docs_arg commands_directory model_arg w aliases_arg api_key gemini
     = Inr chat \<Longrightarrow> history_window chat = max w 1"
  by (auto simp add: PaibotChat_init_def Let_def split: option.splits if_splits)

lemma slice_from_tail:
  "0 < m \<Longrightarrow> slice_from (- m) xs = drop (length xs - nat m) xs"
  by (auto simp add: slice_from_def max_def nat_diff_distrib' intro: arg_cong [where f = "\<lambda>n. drop n xs"])

lemma recent_history_drop:
  assumes "1 \<le> history_window chat"
  shows "recent_history chat history = drop (length history - nat (history_window chat)) history"
proof (cases "int (length history) \<le> history_window chat")
  case True
  then have "length history - nat (history_window chat) = 0" by simp
  then show ?thesis using True by (simp add: recent_history_def)
next
  case False
  then show ?thesis using assms by (simp add: recent_history_def slice_from_tail)
qed

lemma trim_history_drop:
  assumes "1 \<le> history_window chat"
  shows "trim_history chat history =
           drop (length history - 2 * nat (history_window chat)) history"
proof -
  have n: "nat (history_window chat * 2) = 2 * nat (history_window chat)" using assms by simp
  show ?thesis
  proof (cases "int (length history) \<le> history_window chat * 2")
    case True
    then have "length history - 2 * nat (history_window chat) = 0" using n by simp
    then show ?thesis using True by (simp add: trim_history_def Let_def)
  next
    case False
    then show ?thesis using assms n by (simp add: trim_history_def Let_def slice_from_tail)
  qed
qed

text \<open>
  A turn on a message that is not blank, read in both directions: what a returning call
  has done, and what a call does once the reply stands.
\<close>

lemma respond_returns:
  assumes "strip message \<noteq> []"
      and "respond U chat clock dir user_id message = Inr (reply, dir')"
  shows "\<exists>history base_response.
           load_history dir clock user_id = Inr history
           \<and> (case resolve_command_query U (command_docs chat) (strip message) of
                 Some document \<Rightarrow> Inr (format_command_response document)
               | None \<Rightarrow> generate_model_reply chat history (strip message)
                           (is_mention U chat (strip message))) = Inr base_response
           \<and> (if is_mention U chat (strip message)
               then stylize U (persona chat) None base_response
               else Inr base_response) = Inr reply
           \<and> save_history dir (clock (Suc (Suc (length history)))) user_id
                 (trim_history chat
                    (updated_history history (strip message) reply
                       (is_mention U chat (strip message))
                       (clock (length history)) (clock (Suc (length history))))) = Inr dir'"
  using assms
  by (auto simp add: respond_def Let_def split: sum.splits prod.splits)

lemma respond_steps:
  assumes "strip message \<noteq> []"
      and "load_history dir clock user_id = Inr history"
      and "(case resolve_command_query U (command_docs chat) (strip message) of
              Some document \<Rightarrow> Inr (format_command_response document)
            | None \<Rightarrow> generate_model_reply chat history (strip message)
                        (is_mention U chat (strip message))) = Inr base_response"
      and "(if is_mention U chat (strip message)
            then stylize U (persona chat) None base_response
            else Inr base_response) = Inr reply"
  shows "respond U chat clock dir user_id message =
           (case save_history dir (clock (Suc (Suc (length history)))) user_id
                   (trim_history chat
                      (updated_history history (strip message) reply
                         (is_mention U chat (strip message))
                         (clock (length history)) (clock (Suc (length history))))) of
              Inl (e, dir') \<Rightarrow> Inl (e, dir')
            | Inr dir' \<Rightarrow> Inr (reply, dir'))"
  using assms by (simp add: respond_def Let_def)


text \<open>
  C5. For a message of white space only (the empty one included), whatever the user
  identity, the chat object, the clock and the directory: \<open>respond\<close> returns the fixed
  sentence \<open>heard_nothing\<close> and the directory as it was. Nothing is loaded: the call
  returns even where a load would raise.
\<close>

theorem respond_empty_message:
  assumes "list_all isspace message"
  shows "respond U chat clock dir user_id message = Inr (heard_nothing, dir)"
proof -
  have "strip message = []" using assms by (simp add: strip_eq_Nil_iff)
  then show ?thesis by (simp add: respond_def)
qed




lemma stylize_nonempty: "stylize U p tags text = Inr styled \<Longrightarrow> styled \<noteq> []"
  by (auto simp add: stylize_def Let_def confused_def split: if_splits)

lemma generate_model_reply_nonempty:
  "generate_model_reply chat history message mention = Inr reply \<Longrightarrow> reply \<noteq> []"
  by (auto simp add: generate_model_reply_def Let_def still_thinking_def split: sum.splits if_splits)

lemma format_command_response_nonempty: "format_command_response document \<noteq> []"
  by (simp add: format_command_response_def asc_def)

lemma heard_nothing_nonempty: "heard_nothing \<noteq> []"
  by (simp add: heard_nothing_def asc_def)

lemma respond_reply_nonempty:
  assumes "respond U chat clock dir user_id message = Inr (reply, dir')"
  shows "reply \<noteq> []"
proof (cases "strip message = []")
  case True
  then have "reply = heard_nothing" using assms by (simp add: respond_def)
  then show ?thesis by (simp add: heard_nothing_nonempty)
next
  case False
  from respond_returns [OF False assms] obtain history base_response where
    b: "(case resolve_command_query U (command_docs chat) (strip message) of
           Some document \<Rightarrow> Inr (format_command_response document)
         | None \<Rightarrow> generate_model_reply chat history (strip message)
                     (is_mention U chat (strip message))) = Inr base_response"
    and r: "(if is_mention U chat (strip message)
             then stylize U (persona chat) None base_response
             else Inr base_response) = Inr reply"
    by blast
  have "base_response \<noteq> []"
    using b by (auto simp add: format_command_response_nonempty
                     dest: generate_model_reply_nonempty split: option.splits)
  then show ?thesis using r by (auto dest: stylize_nonempty split: if_splits)
qed

text \<open>
  When \<open>respond\<close> raises: the load raises, or the model does (no command document being
  resolved), or a mention is to be styled by a persona without emotes, all of which
  leave the directory as it was; or the write raises and leaves a file that cannot be
  parsed.
\<close>

lemma respond_raises:
  assumes "respond U chat clock dir user_id message = Inl (e, dir')"
  shows "(load_history dir clock user_id = Inl e \<and> dir' = dir)
         \<or> (\<exists>history. load_history dir clock user_id = Inr history
               \<and> resolve_command_query U (command_docs chat) (strip message) = None
               \<and> model chat (build_contents chat history (strip message)
                                (is_mention U chat (strip message))) = Inl e
               \<and> dir' = dir)
         \<or> (e = ZeroDivisionError \<and> closing_emotes (persona chat) = []
             \<and> is_mention U chat (strip message) \<and> dir' = dir)
         \<or> (e = UnicodeEncodeError \<and> dir' = dir(memory_file user_id \<mapsto> NotJson))"
proof -
  let ?message = "strip message"
  let ?mention = "is_mention U chat ?message"
  have m: "?message \<noteq> []" using assms by (auto simp add: respond_def)
  show ?thesis
  proof (cases "load_history dir clock user_id")
    case (Inl e0)
    then have "respond U chat clock dir user_id message = Inl (e0, dir)"
      using m by (simp add: respond_def)
    then show ?thesis using assms Inl by simp
  next
    case (Inr history)
    note h = this
    show ?thesis
    proof (cases "case resolve_command_query U (command_docs chat) ?message of
                    Some document \<Rightarrow> Inr (format_command_response document)
                  | None \<Rightarrow> generate_model_reply chat history ?message ?mention")
      case (Inl e0)
      then have "respond U chat clock dir user_id message = Inl (e0, dir)"
        using m h by (simp add: respond_def Let_def)
      then have e: "e0 = e" "dir' = dir" using assms by simp_all
      from Inl have "resolve_command_query U (command_docs chat) ?message = None
                     \<and> model chat (build_contents chat history ?message ?mention) = Inl e0"
        by (simp add: generate_model_reply_def Let_def split: option.splits sum.splits)
      then show ?thesis using h e by simp
    next
      case (Inr base_response)
      note b = this
      show ?thesis
      proof (cases "if ?mention then stylize U (persona chat) None base_response
                    else Inr base_response")
        case (Inl e0)
        then have "respond U chat clock dir user_id message = Inl (e0, dir)"
          using m h b by (simp add: respond_def Let_def)
        then have e: "e0 = e" "dir' = dir" using assms by simp_all
        from Inl have "?mention \<and> stylize U (persona chat) None base_response = Inl e0"
          by (simp split: if_splits)
        then show ?thesis using e by (auto dest: stylize_raises)
      next
        case (Inr reply)
        have "e = UnicodeEncodeError \<and> dir' = dir(memory_file user_id \<mapsto> NotJson)"
          using assms unfolding respond_steps [OF m h b Inr]
          by (simp add: save_history_def split: if_splits)
        then show ?thesis by simp
      qed
    qed
  qed
qed


text \<open>
  What a turn stores is bounded, and a turn leaves the files of other users alone, so
  the bound holds along every sequence of turns.
\<close>

lemma load_history_other_file:
  "memory_file user_id \<noteq> memory_file other \<Longrightarrow>
   load_history (dir(memory_file other \<mapsto> c)) clock user_id = load_history dir clock user_id"
  by (simp add: load_history_def)

lemma trim_history_length:
  assumes "1 \<le> history_window chat"
  shows "length (trim_history chat history) \<le> 2 * nat (history_window chat)"
  by (simp add: trim_history_drop [OF assms])

lemma respond_keeps_bound:
  assumes w: "1 \<le> history_window chat"
      and r: "respond U chat clock dir user_id message = Inr (reply, dir')"
      and b: "(\<exists>h. load_history dir clock' uid = Inr h \<and> length h \<le> 2 * nat (history_window chat))
              \<or> (memory_file user_id = memory_file uid \<and> strip message \<noteq> [])"
  shows "\<exists>h. load_history dir' clock' uid = Inr h \<and> length h \<le> 2 * nat (history_window chat)"
proof (cases "strip message = []")
  case True
  then have "dir' = dir" using r by (simp add: respond_def)
  then show ?thesis using b True by simp
next
  case False
  from respond_returns [OF False r] obtain now hs where
    s: "save_history dir now user_id (trim_history chat hs) = Inr dir'"
    by blast
  then have d: "dir' = dir(memory_file user_id \<mapsto>
                         Parsed (payload user_id (trim_history chat hs) now))"
    by (simp add: save_history_Inr)
  show ?thesis
  proof (cases "memory_file uid = memory_file user_id")
    case True
    then have "load_history dir' clock' uid = Inr (trim_history chat hs)"
      unfolding d by (intro load_payload) simp
    then show ?thesis using trim_history_length [OF w] by simp
  next
    case False
    then have "load_history dir' clock' uid = load_history dir clock' uid"
      unfolding d by (rule load_history_other_file)
    then show ?thesis using b False by auto
  qed
qed

lemma turns_keep_bound:
  assumes w: "1 \<le> history_window chat"
  shows "turns U chat dir ts = Inr dir' \<Longrightarrow>
         (\<exists>h. load_history dir clock' uid = Inr h \<and> length h \<le> 2 * nat (history_window chat))
         \<or> (\<exists>(clock, user_id, message) \<in> set ts.
               memory_file user_id = memory_file uid \<and> strip message \<noteq> []) \<Longrightarrow>
         \<exists>h. load_history dir' clock' uid = Inr h \<and> length h \<le> 2 * nat (history_window chat)"
proof (induction ts arbitrary: dir)
  case Nil
  then show ?case by simp
next
  case (Cons t ts)
  obtain clock user_id message where t: "t = (clock, user_id, message)" by (cases t)
  from Cons.prems(1) t obtain reply dir1 where
    r: "respond U chat clock dir user_id message = Inr (reply, dir1)"
    and rest: "turns U chat dir1 ts = Inr dir'"
    by (auto split: sum.splits prod.splits)
  show ?case
  proof (cases "\<exists>(clock, user_id, message) \<in> set ts.
                  memory_file user_id = memory_file uid \<and> strip message \<noteq> []")
    case True
    then show ?thesis using Cons.IH [OF rest] by blast
  next
    case False
    then have "(\<exists>h. load_history dir clock' uid = Inr h \<and> length h \<le> 2 * nat (history_window chat))
              \<or> (memory_file user_id = memory_file uid \<and> strip message \<noteq> [])"
      using Cons.prems(2) t by auto
    with w r have "\<exists>h. load_history dir1 clock' uid = Inr h
                       \<and> length h \<le> 2 * nat (history_window chat)"
      by (rule respond_keeps_bound)
    then show ?thesis using Cons.IH [OF rest] by blast
  qed
qed

text \<open>
  C2, as the code has it. The constructor raises a window below 1 to 1, so the effective
  window of a chat object built with \<open>history_window = w\<close> is \<open>max w 1\<close>. After a turn
  on a message that is not blank, the stored history is the loaded history with the two
  new records appended, cut from the front to its last \<open>2 * max w 1\<close> records at most.
  The prompt consists of the last \<open>max w 1\<close> records of the history at most, oldest
  first, followed by the instruction for a mention, if any, and the message. After every
  sequence of turns that returns and has a turn of the user on a message that is not
  blank, the stored history of the user has \<open>2 * max w 1\<close> records at most.
\<close>

theorem history_window_bounds:
  assumes "PaibotChat_init U persona_arg docs_arg commands_directory model_arg w aliases_arg
             api_key gemini = Inr chat"
  shows "(\<forall>reply dir'.
            strip message \<noteq> [] \<and> respond U chat clock dir user_id message = Inr (reply, dir') \<longrightarrow>
            (\<exists>history user_record assistant_record.
               load_history dir clock user_id = Inr history
               \<and> load_history dir' clock' user_id =
                   Inr (drop (length history + 2 - 2 * nat (max w 1))
                          (history @ [user_record, assistant_record]))
               \<and> length (drop (length history + 2 - 2 * nat (max w 1))
                            (history @ [user_record, assistant_record])) \<le> 2 * nat (max w 1)))
         \<and> build_contents chat history0 message0 mention =
             map history_turn (drop (length history0 - nat (max w 1)) history0)
             @ (if mention then [\<lparr>turn_role = asc ''user'', parts = [mention_instruction]\<rparr>] else [])
             @ [\<lparr>turn_role = asc ''user'', parts = [message0]\<rparr>]
         \<and> length (drop (length history0 - nat (max w 1)) history0) \<le> nat (max w 1)
         \<and> (\<forall>ts dir''.
               turns U chat dir ts = Inr dir''
               \<and> (\<exists>(clock, user_id', message) \<in> set ts.
                     memory_file user_id' = memory_file user_id \<and> strip message \<noteq> []) \<longrightarrow>
               (\<exists>h. load_history dir'' clock' user_id = Inr h
                     \<and> length h \<le> 2 * nat (max w 1)))"
proof (intro conjI allI impI)
  have w: "history_window chat = max w 1" using assms by (rule PaibotChat_init_window)
  then have w1: "1 \<le> history_window chat" by simp
  show "build_contents chat history0 message0 mention =
             map history_turn (drop (length history0 - nat (max w 1)) history0)
             @ (if mention then [\<lparr>turn_role = asc ''user'', parts = [mention_instruction]\<rparr>] else [])
             @ [\<lparr>turn_role = asc ''user'', parts = [message0]\<rparr>]"
    by (simp add: build_contents_def recent_history_drop [OF w1] w)
  show "length (drop (length history0 - nat (max w 1)) history0) \<le> nat (max w 1)"
    by simp
  fix reply dir'
  assume a: "strip message \<noteq> [] \<and> respond U chat clock dir user_id message = Inr (reply, dir')"
  then have a1: "strip message \<noteq> []"
    and a2: "respond U chat clock dir user_id message = Inr (reply, dir')" by simp_all
  let ?mention = "is_mention U chat (strip message)"
  from respond_returns [OF a1 a2] obtain history where
    h: "load_history dir clock user_id = Inr history"
    and d: "save_history dir (clock (Suc (Suc (length history)))) user_id
              (trim_history chat
                 (updated_history history (strip message) reply ?mention
                    (clock (length history)) (clock (Suc (length history))))) = Inr dir'"
    by blast
  let ?u = "\<lparr>role = asc ''user'', content = strip message, metadata = None,
              timestamp = clock (length history)\<rparr>"
  let ?a = "\<lparr>role = asc ''assistant'', content = reply,
              metadata = Some [(asc ''mention'', mention_flag ?mention)],
              timestamp = clock (Suc (length history))\<rparr>"
  have "load_history dir' clock' user_id =
          Inr (trim_history chat
                 (updated_history history (strip message) reply ?mention
                    (clock (length history)) (clock (Suc (length history)))))"
    using d by (rule load_save_roundtrip)
  then have l: "load_history dir' clock' user_id =
          Inr (drop (length history + 2 - 2 * nat (max w 1)) (history @ [?u, ?a]))"
    by (simp add: trim_history_drop [OF w1] w updated_history_def)
  have "length (drop (length history + 2 - 2 * nat (max w 1)) (history @ [?u, ?a]))
          \<le> 2 * nat (max w 1)" by simp
  with h l show "\<exists>history user_record assistant_record.
               load_history dir clock user_id = Inr history
               \<and> load_history dir' clock' user_id =
                   Inr (drop (length history + 2 - 2 * nat (max w 1))
                          (history @ [user_record, assistant_record]))
               \<and> length (drop (length history + 2 - 2 * nat (max w 1))
                            (history @ [user_record, assistant_record])) \<le> 2 * nat (max w 1)"
    by blast
next
  have w1: "1 \<le> history_window chat"
    using PaibotChat_init_window [OF assms] by simp
  fix ts dir''
  assume "turns U chat dir ts = Inr dir''
          \<and> (\<exists>(clock, user_id', message) \<in> set ts.
                memory_file user_id' = memory_file user_id \<and> strip message \<noteq> [])"
  then have "\<exists>h. load_history dir'' clock' user_id = Inr h
                 \<and> length h \<le> 2 * nat (history_window chat)"
    using turns_keep_bound [OF w1, of U dir ts dir'' clock' user_id] by blast
  then show "\<exists>h. load_history dir'' clock' user_id = Inr h \<and> length h \<le> 2 * nat (max w 1)"
    using PaibotChat_init_window [OF assms] by simp
qed

text \<open>The definitions that evaluate a turn of the example chat.\<close>

lemmas chat_eval =
  example_chat_def example_model_def example_clock_def default_aliases_def is_mention_def
  resolve_command_query_def available_commands_def get_def example_docs_eq
  generate_model_reply_def mention_flag_def

lemma hola_not_command:
  "resolve_command_query ascii_tables (command_docs (example_chat w)) (strip (asc '' Hola '')) = None"
  by (simp add: chat_eval pattern_eval string_eval)

lemma hola_not_mention: "\<not> is_mention ascii_tables (example_chat w) (strip (asc '' Hola ''))"
  by (simp add: chat_eval string_eval)

lemma hola_reply:
  "generate_model_reply (example_chat w) history (strip (asc '' Hola '')) False =
     Inr (asc ''Hola, viajero.'')"
  by (simp add: chat_eval string_eval)

lemma example_dir_history:
  "load_history example_dir clock (asc ''u'') =
     Inr (example_turn (asc ''Buenas'') (asc ''Hola, viajero.''))"
  unfolding example_dir_def by (rule load_payload) simp

lemma empty_dir_history: "load_history Map.empty clock user_id = Inr []"
  by (simp add: load_history_def)

lemma example_turn_encodable:
  "encodable message \<Longrightarrow> encodable reply \<Longrightarrow> list_all record_encodable (example_turn message reply)"
  by (simp add: example_turn_def encodable_eval asc_def)

lemma trim_history_encodable:
  assumes "list_all record_encodable history"
  shows "list_all record_encodable (trim_history chat history)"
proof -
  have "set (trim_history chat history) \<subseteq> set history"
    by (auto simp add: trim_history_def slice_from_def Let_def dest: in_set_dropD)
  then show ?thesis using assms by (auto simp add: list_all_iff)
qed

text \<open>
  The turn of the example chat on the message \<open>" Hola "\<close>, up to the write, and with the
  write when the identity and the loaded history can be encoded.
\<close>

lemma respond_hola_save:
  assumes "load_history dir example_clock user_id = Inr history"
  shows "respond ascii_tables (example_chat w) example_clock dir user_id (asc '' Hola '') =
           (case save_history dir (asc ''2024-01-01T00:00:00.000000Z'') user_id
                   (trim_history (example_chat w)
                      (history @ example_turn (asc ''Hola'') (asc ''Hola, viajero.''))) of
              Inl (e, dir') \<Rightarrow> Inl (e, dir')
            | Inr dir' \<Rightarrow> Inr (asc ''Hola, viajero.'', dir'))"
proof -
  let ?mention = "is_mention ascii_tables (example_chat w) (strip (asc '' Hola ''))"
  have s: "strip (asc '' Hola '') \<noteq> []" by (simp add: string_eval)
  have b: "(case resolve_command_query ascii_tables (command_docs (example_chat w))
                   (strip (asc '' Hola '')) of
              Some document \<Rightarrow> Inr (format_command_response document)
            | None \<Rightarrow> generate_model_reply (example_chat w) history (strip (asc '' Hola ''))
                        ?mention) = Inr (asc ''Hola, viajero.'')"
    by (simp add: hola_not_command hola_not_mention hola_reply)
  have r: "(if ?mention
            then stylize ascii_tables (persona (example_chat w)) None (asc ''Hola, viajero.'')
            else Inr (asc ''Hola, viajero.'')) = Inr (asc ''Hola, viajero.'')"
    by (simp add: hola_not_mention)
  have "strip (asc '' Hola '') = asc ''Hola''" by (simp add: string_eval)
  then have u: "updated_history history (strip (asc '' Hola '')) (asc ''Hola, viajero.'') ?mention
               (example_clock (length history)) (example_clock (Suc (length history))) =
             history @ example_turn (asc ''Hola'') (asc ''Hola, viajero.'')"
    using hola_not_mention [of w]
    by (simp add: updated_history_def example_turn_def mention_flag_def example_clock_def)
  show ?thesis
    unfolding respond_steps [OF s assms b r] u by (simp add: example_clock_def)
qed

lemma respond_hola:
  assumes "load_history dir example_clock (asc ''u'') = Inr history"
      and "list_all record_encodable history"
  shows "respond ascii_tables (example_chat w) example_clock dir (asc ''u'') (asc '' Hola '') =
     Inr (asc ''Hola, viajero.'',
          dir(memory_file (asc ''u'') \<mapsto>
            Parsed (payload (asc ''u'')
                      (trim_history (example_chat w)
                         (history @ example_turn (asc ''Hola'') (asc ''Hola, viajero.'')))
                      (asc ''2024-01-01T00:00:00.000000Z''))))"
proof -
  have "list_all record_encodable (example_turn (asc ''Hola'') (asc ''Hola, viajero.''))"
    by (rule example_turn_encodable) (simp_all add: encodable_eval asc_def)
  then have "list_all record_encodable
               (history @ example_turn (asc ''Hola'') (asc ''Hola, viajero.''))"
    using assms(2) by simp
  then have "list_all record_encodable
               (trim_history (example_chat w)
                  (history @ example_turn (asc ''Hola'') (asc ''Hola, viajero.'')))"
    by (rule trim_history_encodable)
  moreover have "encodable (asc ''u'') \<and> encodable (asc ''2024-01-01T00:00:00.000000Z'')"
    by (simp add: encodable_eval asc_def)
  ultimately show ?thesis
    unfolding respond_hola_save [OF assms(1)] by (simp add: save_history_returns)
qed

lemma respond_hola_fresh:
  "respond ascii_tables (example_chat w) example_clock Map.empty (asc ''u'') (asc '' Hola '') =
     Inr (asc ''Hola, viajero.'',
          Map.empty(memory_file (asc ''u'') \<mapsto>
            Parsed (payload (asc ''u'') (example_turn (asc ''Hola'') (asc ''Hola, viajero.''))
                      (asc ''2024-01-01T00:00:00.000000Z''))))"
proof -
  have "trim_history (example_chat w) (example_turn (asc ''Hola'') (asc ''Hola, viajero.'')) =
          example_turn (asc ''Hola'') (asc ''Hola, viajero.'')"
    by (simp add: trim_history_def example_chat_def example_turn_def Let_def)
  then show ?thesis
    using respond_hola [OF empty_dir_history, where w = w] by simp
qed






text \<open>
  The theorem for C5 at a message of a space, a tab and a newline, in a directory where
  the file of the user cannot be parsed.
\<close>

theorem respond_empty_message_witness:
  "respond ascii_tables (example_chat 12) example_clock
     (Map.empty(memory_file (asc ''u'') \<mapsto> NotJson)) (asc ''u'') [32, 9, 10] =
   Inr (heard_nothing, Map.empty(memory_file (asc ''u'') \<mapsto> NotJson))"
  by (rule respond_empty_message) (simp add: isspace_def)





text \<open>
  C2 as it is stated fails for \<open>history_window = 0\<close>: the constructor builds the chat
  object with window 1, and the first turn of a new user stores two records, more than
  \<open>2 * 0\<close>.
\<close>

theorem history_window_counterexample:
  "PaibotChat_init ascii_tables None (Some example_docs) None (Some example_model) 0 None None
     example_model = Inr (example_chat 0)
   \<and> respond ascii_tables (example_chat 0) example_clock Map.empty (asc ''u'') (asc '' Hola '') =
       Inr (asc ''Hola, viajero.'',
            Map.empty(memory_file (asc ''u'') \<mapsto>
              Parsed (payload (asc ''u'') (example_turn (asc ''Hola'') (asc ''Hola, viajero.''))
                        (asc ''2024-01-01T00:00:00.000000Z''))))
   \<and> load_history
         (Map.empty(memory_file (asc ''u'') \<mapsto>
            Parsed (payload (asc ''u'') (example_turn (asc ''Hola'') (asc ''Hola, viajero.''))
                      (asc ''2024-01-01T00:00:00.000000Z''))))
         example_clock (asc ''u'') =
       Inr (example_turn (asc ''Hola'') (asc ''Hola, viajero.''))
   \<and> \<not> int (length (example_turn (asc ''Hola'') (asc ''Hola, viajero.''))) \<le> 2 * 0"
proof -
  have "load_history
         (Map.empty(memory_file (asc ''u'') \<mapsto>
            Parsed (payload (asc ''u'') (example_turn (asc ''Hola'') (asc ''Hola, viajero.''))
                      (asc ''2024-01-01T00:00:00.000000Z''))))
         example_clock (asc ''u'') =
       Inr (example_turn (asc ''Hola'') (asc ''Hola, viajero.''))"
    by (rule load_payload) simp
  then show ?thesis
    by (simp add: example_chat_init respond_hola_fresh example_turn_def)
qed

text \<open>
  The theorem for C2 with window 1, at the second turn of the user \<open>u\<close>, alone and as a
  sequence of one turn: of the four records two are stored.
\<close>

theorem history_window_bounds_witness:
  "(\<exists>history user_record assistant_record.
      load_history example_dir example_clock (asc ''u'') = Inr history
      \<and> load_history
           (example_dir(memory_file (asc ''u'') \<mapsto>
              Parsed (payload (asc ''u'')
                        (trim_history (example_chat 1)
                           (example_turn (asc ''Buenas'') (asc ''Hola, viajero.'')
                            @ example_turn (asc ''Hola'') (asc ''Hola, viajero.'')))
                        (asc ''2024-01-01T00:00:00.000000Z''))))
           example_clock (asc ''u'') =
          Inr (drop (length history + 2 - 2 * nat (max 1 1))
                 (history @ [user_record, assistant_record]))
      \<and> length (drop (length history + 2 - 2 * nat (max 1 1))
                   (history @ [user_record, assistant_record])) \<le> 2 * nat (max 1 1))
   \<and> (\<exists>dir'' h.
         turns ascii_tables (example_chat 1) example_dir
           [(example_clock, asc ''u'', asc '' Hola '')] = Inr dir''
         \<and> load_history dir'' example_clock (asc ''u'') = Inr h
         \<and> length h \<le> 2 * nat (max 1 1))"
proof -
  let ?dir = "example_dir(memory_file (asc ''u'') \<mapsto>
              Parsed (payload (asc ''u'')
                        (trim_history (example_chat 1)
                           (example_turn (asc ''Buenas'') (asc ''Hola, viajero.'')
                            @ example_turn (asc ''Hola'') (asc ''Hola, viajero.'')))
                        (asc ''2024-01-01T00:00:00.000000Z'')))"
  have s: "strip (asc '' Hola '') \<noteq> []" by (simp add: string_eval)
  have "list_all record_encodable (example_turn (asc ''Buenas'') (asc ''Hola, viajero.''))"
    by (rule example_turn_encodable) (simp_all add: encodable_eval asc_def)
  note r = respond_hola [OF example_dir_history this, of 1]
  note t = history_window_bounds
             [OF example_chat_init, where message = "asc '' Hola ''" and clock = example_clock
              and dir = example_dir and user_id = "asc ''u''" and clock' = example_clock and w = 1]
  have ts: "turns ascii_tables (example_chat 1) example_dir
              [(example_clock, asc ''u'', asc '' Hola '')] = Inr ?dir"
    by (simp add: r)
  have m: "\<exists>(clock, user_id', message) \<in> set [(example_clock, asc ''u'', asc '' Hola '')].
             memory_file user_id' = memory_file (asc ''u'') \<and> strip message \<noteq> []"
    using s by simp
  from t [THEN conjunct1] s r have a:
    "\<exists>history user_record assistant_record.
      load_history example_dir example_clock (asc ''u'') = Inr history
      \<and> load_history ?dir example_clock (asc ''u'') =
          Inr (drop (length history + 2 - 2 * nat (max 1 1))
                 (history @ [user_record, assistant_record]))
      \<and> length (drop (length history + 2 - 2 * nat (max 1 1))
                   (history @ [user_record, assistant_record])) \<le> 2 * nat (max 1 1)"
    by blast
  from t [THEN conjunct2, THEN conjunct2, THEN conjunct2] ts m have b:
    "\<exists>dir'' h.
         turns ascii_tables (example_chat 1) example_dir
           [(example_clock, asc ''u'', asc '' Hola '')] = Inr dir''
         \<and> load_history dir'' example_clock (asc ''u'') = Inr h
         \<and> length h \<le> 2 * nat (max 1 1)"
    by blast
  from a b show ?thesis by (rule conjI)
qed

end
